theory Spec2Isabelle
  imports Complex_Main
begin

section \<open>Python values and exceptions\<close>

text \<open>
  The scalar values a YAML configuration holds. A float is held by its value, a real
  number; the operations on floats round their results, as defined below.
\<close>

datatype pyval = PNone | PInt int | PFloat real | PStr string

text \<open>
  Dictionary keys. A YAML key need not be a string, and the code checks for that:
  integers stand for the keys that are not strings.
\<close>

datatype pykey = KStr string | KInt int

text \<open>
  Exceptions are values. \<open>Exception msg\<close> is the plain \<^verbatim>\<open>Exception(msg)\<close> that the code
  raises itself; the others are the built-in exceptions that the operations used raise.
  \<open>Unsupported\<close> marks an input on which the behaviour of pandas or scipy is outside
  the model (a NaN or non-numeric cell of a data frame), and an infinite float.
\<close>

datatype error =
    KeyError pykey
  | IndexError
  | TypeError
  | ValueError
  | OverflowError
  | AttributeError string
  | ValidationError
  | FileNotFoundError string
  | Exception string
  | Unsupported string

subsection \<open>Floats\<close>

text \<open>
  A Python float is an IEEE 754 binary64 number, and \<open>PFloat x\<close> is the finite float of
  value \<open>x\<close>. An operation on floats returns the exact result rounded to the nearest
  float, a tie going to the even significand: the significand has 53 bits, so the unit
  in the last place of \<open>x\<close> is 2 to the power \<open>\<lfloor>log 2 \<bar>x\<bar>\<rfloor> - 52\<close>, and no less than the
  least subnormal number, 2 to the power -1074.
\<close>

definition round_half_even :: "real \<Rightarrow> int" where
  "round_half_even y =
     (let f = \<lfloor>y\<rfloor>; d = y - of_int f
      in if d < 1 / 2 then f else if 1 / 2 < d then f + 1 else if even f then f else f + 1)"

definition ulp_exponent :: "real \<Rightarrow> int" where
  "ulp_exponent x = max (- 1074) (\<lfloor>log 2 x\<rfloor> - 52)"

definition round_float :: "real \<Rightarrow> real" where
  "round_float x =
     (let e = ulp_exponent \<bar>x\<bar>
      in sgn x * (of_int (round_half_even (\<bar>x\<bar> / 2 powr of_int e)) * 2 powr of_int e))"

text \<open>The finite floats: the numbers below 2^1024 in absolute value that rounding keeps.\<close>

definition is_float :: "real \<Rightarrow> bool" where
  "is_float x = (round_float x = x \<and> \<bar>x\<bar> < 2 ^ 1024)"

text \<open>
  The result of an operation on floats whose exact result is \<open>x\<close>. Where the rounded result
  is beyond the largest float, Python continues with an infinite float, which is
  outside the model.
\<close>

definition float_result :: "real \<Rightarrow> error + real" where
  "float_result x =
     (let r = round_float x
      in if \<bar>r\<bar> < 2 ^ 1024 then Inr r else Inl (Unsupported ''infinite float''))"

text \<open>
  The conversion of an integer operand of a float operation: the nearest float, and
  \<^verbatim>\<open>OverflowError\<close> for an integer that is too large.
\<close>

definition float_of_int :: "int \<Rightarrow> error + real" where
  "float_of_int i =
     (let r = round_float (of_int i)
      in if \<bar>r\<bar> < 2 ^ 1024 then Inr r else Inl OverflowError)"

text \<open>
  \<^verbatim>\<open>a - b\<close>: exact on two integers, a float operation when one operand is a float, and a
  \<^verbatim>\<open>TypeError\<close> on the other values.
\<close>

fun py_sub :: "pyval \<Rightarrow> pyval \<Rightarrow> error + pyval" where
  "py_sub (PInt a) (PInt b) = Inr (PInt (a - b))"
| "py_sub (PInt a) (PFloat y) =
     (case float_of_int a of
        Inl e \<Rightarrow> Inl e
      | Inr x \<Rightarrow> (case float_result (x - y) of Inl e \<Rightarrow> Inl e | Inr r \<Rightarrow> Inr (PFloat r)))"
| "py_sub (PFloat x) (PInt b) =
     (case float_of_int b of
        Inl e \<Rightarrow> Inl e
      | Inr y \<Rightarrow> (case float_result (x - y) of Inl e \<Rightarrow> Inl e | Inr r \<Rightarrow> Inr (PFloat r)))"
| "py_sub (PFloat x) (PFloat y) =
     (case float_result (x - y) of Inl e \<Rightarrow> Inl e | Inr r \<Rightarrow> Inr (PFloat r))"
| "py_sub a b = Inl TypeError"

text \<open>\<^verbatim>\<open>f * b\<close> for a float \<open>f\<close>, the result being a float.\<close>

fun float_mul :: "real \<Rightarrow> pyval \<Rightarrow> error + real" where
  "float_mul f (PInt b) =
     (case float_of_int b of Inl e \<Rightarrow> Inl e | Inr y \<Rightarrow> float_result (f * y))"
| "float_mul f (PFloat y) = float_result (f * y)"
| "float_mul f b = Inl TypeError"

text \<open>\<^verbatim>\<open>a + p\<close> for a float \<open>p\<close>, the result being a float.\<close>

fun add_float :: "pyval \<Rightarrow> real \<Rightarrow> error + real" where
  "add_float (PInt a) p =
     (case float_of_int a of Inl e \<Rightarrow> Inl e | Inr x \<Rightarrow> float_result (x + p))"
| "add_float (PFloat x) p = float_result (x + p)"
| "add_float a p = Inl TypeError"

section \<open>utils.py\<close>

subsection \<open>String operations used by the helpers\<close>

text \<open>\<^verbatim>\<open>str.isspace\<close> on the ASCII range: tab, LF, VT, FF, CR, FS, GS, RS, US and space.\<close>

definition isspace :: "char \<Rightarrow> bool" where
  "isspace c = (let n = (of_char c :: nat) in (9 \<le> n \<and> n \<le> 13) \<or> (28 \<le> n \<and> n \<le> 32))"

text \<open>\<^verbatim>\<open>s.strip()\<close>: whitespace removed at both ends.\<close>

definition strip :: "string \<Rightarrow> string" where
  "strip s = rev (dropWhile isspace (rev (dropWhile isspace s)))"

text \<open>\<^verbatim>\<open>s.split(sep)\<close> for a one-character separator: never an empty list.\<close>

fun split :: "char \<Rightarrow> string \<Rightarrow> string list" where
  "split sep [] = [[]]"
| "split sep (c # cs) =
     (if c = sep then [] # split sep cs
      else (c # hd (split sep cs)) # tl (split sep cs))"

text \<open>\<^verbatim>\<open>sep.join(xs)\<close>.\<close>

fun join :: "string \<Rightarrow> string list \<Rightarrow> string" where
  "join sep [] = []"
| "join sep [x] = x"
| "join sep (x # y # ys) = x @ sep @ join sep (y # ys)"

text \<open>
  \<^verbatim>\<open>f.readlines()\<close> on the text of a file (newlines already translated to LF, as
  text mode does): each line keeps its line feed; a last line without one is kept too.
\<close>

fun readlines :: "string \<Rightarrow> string list" where
  "readlines [] = []"
| "readlines (c # cs) =
     (if c = CHR 0x0A then [c] # readlines cs
      else (case readlines cs of [] \<Rightarrow> [[c]] | l # ls \<Rightarrow> (c # l) # ls))"

text \<open>
  \<^verbatim>\<open>fmt.format(*args)\<close> for a format string whose only replacement fields are the
  automatically numbered \<^verbatim>\<open>{}\<close>, which is all that \<^verbatim>\<open>list_to_csv\<close> builds. A field
  with no argument left raises IndexError, surplus arguments are ignored, and a brace
  that does not open \<^verbatim>\<open>{}\<close> is reported as ValueError.
\<close>

fun py_format :: "string \<Rightarrow> string list \<Rightarrow> error + string" where
  "py_format [] args = Inr []"
| "py_format [c] args =
     (if c = CHR ''{'' \<or> c = CHR ''}'' then Inl ValueError else Inr [c])"
| "py_format (c # d # fs) args =
     (if c = CHR ''{'' \<and> d = CHR ''}'' then
        (case args of
           [] \<Rightarrow> Inl IndexError
         | a # as \<Rightarrow> (case py_format fs as of Inl e \<Rightarrow> Inl e | Inr r \<Rightarrow> Inr (a @ r)))
      else if c = CHR ''{'' \<or> c = CHR ''}'' then Inl ValueError
      else (case py_format (d # fs) args of Inl e \<Rightarrow> Inl e | Inr r \<Rightarrow> Inr (c # r)))"

subsection \<open>read_csv, transpose_tabular, list_to_csv\<close>

text \<open>
  The file system is a map from file names to the text of the file. \<^verbatim>\<open>read_csv\<close>
  strips each line and splits it at the commas.
\<close>

definition parse_line :: "string \<Rightarrow> string list" where
  "parse_line line = split CHR '','' (strip line)"

definition read_csv :: "(string \<Rightarrow> string option) \<Rightarrow> string \<Rightarrow> error + string list list" where
  "read_csv fs filename =
     (case fs filename of
        None \<Rightarrow> Inl (FileNotFoundError filename)
      | Some content \<Rightarrow> Inr (map parse_line (readlines content)))"

text \<open>
  \<^verbatim>\<open>list(map(list, zip(*rows)))\<close>: \<^verbatim>\<open>zip\<close> stops at the shortest row, and with no
  rows at all it yields nothing.
\<close>

definition transpose_tabular :: "'a list list \<Rightarrow> 'a list list" where
  "transpose_tabular rows =
     (if rows = [] then []
      else map (\<lambda>i. map (\<lambda>r. r ! i) rows) [0..<Min (set (map length rows))])"

text \<open>
  \<^verbatim>\<open>list_to_csv\<close>: one \<^verbatim>\<open>{}\<close> per item, joined by commas, then formatted with the
  items. \<open>str_of\<close> is \<^verbatim>\<open>str\<close> on the items (the identity on strings).
\<close>

definition list_to_csv :: "('a \<Rightarrow> string) \<Rightarrow> 'a list \<Rightarrow> error + string" where
  "list_to_csv str_of row =
     (let format_string = join '','' (replicate (length row) ''{}'')
      in py_format format_string (map str_of row))"


text \<open>
  \<^verbatim>\<open>find_duplicates\<close>: \<open>seen\<close> counts the occurrences so far, and an item is
  appended to \<open>dupes\<close> when it is met for the second time.
\<close>

fun find_duplicates_loop :: "'a list \<Rightarrow> ('a \<Rightarrow> nat option) \<Rightarrow> 'a list \<Rightarrow> 'a list" where
  "find_duplicates_loop [] seen dupes = dupes"
| "find_duplicates_loop (x # xs) seen dupes =
     (case seen x of
        None \<Rightarrow> find_duplicates_loop xs (seen(x \<mapsto> 1)) dupes
      | Some n \<Rightarrow>
          find_duplicates_loop xs (seen(x \<mapsto> n + 1)) (if n = 1 then dupes @ [x] else dupes))"

definition find_duplicates :: "'a list \<Rightarrow> 'a list" where
  "find_duplicates lst = find_duplicates_loop lst Map.empty []"

section \<open>Dictionaries, configurations, samplers\<close>

text \<open>
  A Python dictionary is an association list in insertion order that holds each key
  once (\<open>is_dict\<close>). \<open>dict_set\<close> is \<^verbatim>\<open>d[k] = v\<close>: a key already there keeps its
  place. \<open>dict_update\<close> is \<^verbatim>\<open>d.update(e)\<close> and \<open>getitem\<close> is \<^verbatim>\<open>d[k]\<close>.
\<close>

definition is_dict :: "('k \<times> 'v) list \<Rightarrow> bool" where
  "is_dict d = distinct (map fst d)"

definition keys :: "('k \<times> 'v) list \<Rightarrow> 'k list" where
  "keys d = map fst d"

fun dict_set :: "('k \<times> 'v) list \<Rightarrow> 'k \<Rightarrow> 'v \<Rightarrow> ('k \<times> 'v) list" where
  "dict_set [] k v = [(k, v)]"
| "dict_set ((k', v') # d) k v =
     (if k' = k then (k, v) # d else (k', v') # dict_set d k v)"

definition dict_update :: "('k \<times> 'v) list \<Rightarrow> ('k \<times> 'v) list \<Rightarrow> ('k \<times> 'v) list" where
  "dict_update d e = fold (\<lambda>(k, v) acc. dict_set acc k v) e d"

definition getitem :: "(pykey \<times> 'v) list \<Rightarrow> pykey \<Rightarrow> error + 'v" where
  "getitem d k = (case map_of d k of None \<Rightarrow> Inl (KeyError k) | Some v \<Rightarrow> Inr v)"

text \<open>
  The sampler data block \<^verbatim>\<open>self.data\<close>, by the keys the code reads: a field is
  \<open>None\<close> when the key is absent. \<open>cfg_parameters\<close> maps each ranged parameter to its
  dictionary of bounds (keys \<^verbatim>\<open>min\<close> and \<^verbatim>\<open>max\<close>), as the random strategy has it.
\<close>

record config =
  cfg_type :: "pyval option"
  cfg_num_samples :: "pyval option"
  cfg_previous_samples :: "string option"
  cfg_constants :: "(pykey \<times> pyval) list option"
  cfg_parameters :: "(pykey \<times> (pykey \<times> pyval) list) list option"

type_synonym sample = "(pykey \<times> pyval) list"

record block_entry =
  entry_values :: "pyval list"
  entry_label :: string

type_synonym pblock = "(pykey \<times> block_entry) list"

text \<open>
  The host orchestrator's ParameterGenerator, an external object: the list of the
  (name, values, label) triples registered by \<^verbatim>\<open>add_parameter\<close>.
\<close>

type_synonym pgen = "(pykey \<times> pyval list \<times> string) list"

definition add_parameter :: "pgen \<Rightarrow> pykey \<Rightarrow> pyval list \<Rightarrow> string \<Rightarrow> pgen" where
  "add_parameter g key vals lbl = g @ [(key, vals, lbl)]"

text \<open>The instance attributes of a sampler; \<open>None\<close> is Python's \<^verbatim>\<open>None\<close>.\<close>

record sampler =
  data :: config
  priv_samples :: "sample list option"
  priv_parameter_block :: "pblock option"
  priv_pgen :: "pgen option"

text \<open>\<^verbatim>\<open>BaseSampler.__init__\<close>.\<close>

definition init_sampler :: "config \<Rightarrow> sampler" where
  "init_sampler d =
     \<lparr>data = d, priv_samples = None, priv_parameter_block = None, priv_pgen = None\<rparr>"

subsection \<open>Rendering values as text\<close>

fun digits :: "nat \<Rightarrow> string" where
  "digits n =
     (if n < 10 then [''0123456789'' ! n]
      else digits (n div 10) @ [''0123456789'' ! (n mod 10)])"

definition str_int :: "int \<Rightarrow> string" where
  "str_int i = (if i < 0 then CHR ''-'' # digits (nat (- i)) else digits (nat i))"

text \<open>
  \<^verbatim>\<open>str(v)\<close>. The text of a float is not modelled: \<open>float_repr\<close> is a parameter.
\<close>

fun py_str :: "(real \<Rightarrow> string) \<Rightarrow> pyval \<Rightarrow> string" where
  "py_str float_repr PNone = ''None''"
| "py_str float_repr (PInt i) = str_int i"
| "py_str float_repr (PFloat r) = float_repr r"
| "py_str float_repr (PStr s) = s"

fun str_key :: "pykey \<Rightarrow> string" where
  "str_key (KStr s) = s"
| "str_key (KInt i) = str_int i"

text \<open>\<^verbatim>\<open>str.isnumeric\<close> on ASCII text: not empty, and decimal digits only.\<close>

definition isnumeric :: "string \<Rightarrow> bool" where
  "isnumeric s = (s \<noteq> [] \<and> (\<forall>c \<in> set s. c \<in> set ''0123456789''))"

text \<open>
  Modelled from the spec: \<^verbatim>\<open>log_and_raise_exception\<close>, which base_sampler.py and
  random.py import from scisample.utils and which utils.py does not define. The spec
  (section 7): all raised conditions are logged before raising, using the same message
  supplied to the exception. The log is not part of the model.
\<close>

definition log_and_raise_exception :: "string \<Rightarrow> error + 'a" where
  "log_and_raise_exception msg = Inl (Exception msg)"

section \<open>base_sampler.py\<close>

subsection \<open>check_validity\<close>

definition ALLOWED_SAMPLING_KEYS :: "string list" where
  "ALLOWED_SAMPLING_KEYS =
     [''best_candidate'', ''column_list'', ''cross_product'', ''csv'', ''custom'', ''list'',
      ''random'']"

text \<open>
  Modelled from the spec: \<^verbatim>\<open>validate_sampler\<close> of scisample.schema, which is not among
  the source files. The spec (section 4.2) gives its failure modes: (a) no \<^verbatim>\<open>type\<close> key
  present, (b) \<^verbatim>\<open>type\<close> value not present among the allowed strategy keys, (c) data
  otherwise structurally invalid per schema. The exception of each mode is the one that
  the handlers of \<^verbatim>\<open>check_validity\<close> pair with the message of that mode; what its
  KeyError carries is not used. The per-type schemas are not given: \<open>schema_ok\<close> is a
  parameter.
\<close>

definition validate_sampler :: "(config \<Rightarrow> bool) \<Rightarrow> config \<Rightarrow> error + unit" where
  "validate_sampler schema_ok d =
     (case cfg_type d of
        None \<Rightarrow> Inl ValueError
      | Some t \<Rightarrow>
          if t \<notin> set (map PStr ALLOWED_SAMPLING_KEYS) then Inl (KeyError (KStr ''type''))
          else if \<not> schema_ok d then Inl ValidationError
          else Inr ())"

text \<open>
  \<^verbatim>\<open>check_validity\<close>, over the validation function that it calls. \<open>str_data\<close> is
  \<^verbatim>\<open>str\<close> on the data block, \<open>float_repr\<close> the text of a float; the f-strings put
  \<^verbatim>\<open>str\<close> of the data or of the type into the message. The handler of
  KeyError reads \<^verbatim>\<open>self.data['type']\<close>, which raises KeyError itself when the key is
  absent. Any other exception of the validation passes through.
\<close>

definition check_validity ::
  "(config \<Rightarrow> error + unit) \<Rightarrow> (config \<Rightarrow> string) \<Rightarrow> (real \<Rightarrow> string) \<Rightarrow> sampler \<Rightarrow> error + unit"
where
  "check_validity validate str_data float_repr s =
     (case validate (data s) of
        Inr u \<Rightarrow> Inr ()
      | Inl ValueError \<Rightarrow> log_and_raise_exception
            (''No 'type' entry found in sampler data '' @ str_data (data s))
      | Inl (KeyError k) \<Rightarrow>
          (case cfg_type (data s) of
             None \<Rightarrow> Inl (KeyError (KStr ''type''))
           | Some t \<Rightarrow> log_and_raise_exception
                 (''Sampler type '' @ py_str float_repr t @ '' not found in schema''))
      | Inl ValidationError \<Rightarrow> log_and_raise_exception ''Sampler data is invalid''
      | Inl e \<Rightarrow> Inl e)"

subsection \<open>Parameter names and the shared checks\<close>

text \<open>
  \<^verbatim>\<open>_parameters_constants_parameters_only\<close> and the \<^verbatim>\<open>parameters\<close> property of
  RandomSampler have the same body: a missing block raises KeyError, which is suppressed.
  The shared checks read \<^verbatim>\<open>self.parameters\<close>. (A name of the source that starts with
  an underscore is written here without it.)
\<close>

definition parameters_constants_parameters_only :: "sampler \<Rightarrow> pykey list" where
  "parameters_constants_parameters_only s =
     (let ps = [];
          ps = (case cfg_constants (data s) of None \<Rightarrow> ps | Some c \<Rightarrow> ps @ keys c);
          ps = (case cfg_parameters (data s) of None \<Rightarrow> ps | Some p \<Rightarrow> ps @ keys p)
      in ps)"

definition parameters :: "sampler \<Rightarrow> pykey list" where
  "parameters s =
     (let ps = [];
          ps = (case cfg_constants (data s) of None \<Rightarrow> ps | Some c \<Rightarrow> ps @ keys c);
          ps = (case cfg_parameters (data s) of None \<Rightarrow> ps | Some p \<Rightarrow> ps @ keys p)
      in ps)"

fun is_str :: "pykey \<Rightarrow> bool" where
  "is_str (KStr s) = True"
| "is_str (KInt i) = False"

fun check_strings_loop :: "pykey list \<Rightarrow> error + unit" where
  "check_strings_loop [] = Inr ()"
| "check_strings_loop (parameter # ps) =
     (if \<not> is_str parameter then
        log_and_raise_exception ''constants and parameters must be strings''
      else check_strings_loop ps)"

definition check_variables_strings :: "sampler \<Rightarrow> error + unit" where
  "check_variables_strings s = check_strings_loop (parameters s)"

definition check_variables_existence :: "sampler \<Rightarrow> error + unit" where
  "check_variables_existence s =
     (if length (parameters s) = 0 then
        log_and_raise_exception
          (''Either constants or parameters must be included in the '' @ ''sampler data'')
      else Inr ())"

definition dups_message :: "string \<Rightarrow> string" where
  "dups_message dupes_text =
     ''The following constants or parameters are defined more '' @ ''than once: '' @ dupes_text"

text \<open>
  \<open>str_set\<close> is \<^verbatim>\<open>str\<close> on a set, whose order of elements Python does not fix.
\<close>

definition check_variables_for_dups :: "(pykey set \<Rightarrow> string) \<Rightarrow> sampler \<Rightarrow> error + unit" where
  "check_variables_for_dups str_set s =
     (if length (parameters s) \<noteq> card (set (parameters s)) then
        (let dupes = set (find_duplicates (parameters s))
         in log_and_raise_exception (dups_message (str_set dupes)))
      else Inr ())"

definition check_variables :: "(pykey set \<Rightarrow> string) \<Rightarrow> sampler \<Rightarrow> error + unit" where
  "check_variables str_set s =
     (case check_variables_strings s of
        Inl e \<Rightarrow> Inl e
      | Inr u \<Rightarrow>
          (case check_variables_existence s of
             Inl e \<Rightarrow> Inl e
           | Inr u \<Rightarrow> check_variables_for_dups str_set s))"

subsection \<open>parameter_block and the conversion for the orchestrator\<close>

definition new_entry :: "pykey \<Rightarrow> pyval list \<Rightarrow> block_entry" where
  "new_entry key vals = \<lparr>entry_values = vals, entry_label = str_key key @ ''.%%''\<rparr>"

text \<open>\<^verbatim>\<open>block[key]["values"].append(value)\<close>: the entry of \<open>key\<close> changes in place.\<close>

definition append_value :: "pblock \<Rightarrow> pykey \<Rightarrow> pyval \<Rightarrow> pblock" where
  "append_value b key v =
     map (\<lambda>(k, e). if k = key then (k, e\<lparr>entry_values := entry_values e @ [v]\<rparr>) else (k, e)) b"

fun block_add_items :: "pblock \<Rightarrow> sample \<Rightarrow> pblock" where
  "block_add_items b [] = b"
| "block_add_items b ((key, v) # items) =
     (let b1 = (if key \<notin> set (keys b) then dict_set b key (new_entry key []) else b)
      in block_add_items (append_value b1 key v) items)"

definition build_parameter_block :: "sample list \<Rightarrow> pblock" where
  "build_parameter_block samples = fold (\<lambda>sample b. block_add_items b sample) samples []"

text \<open>
  The \<^verbatim>\<open>parameter_block\<close> property, over the \<^verbatim>\<open>get_samples\<close> of the sampler's class.
  The cache is set to the empty dictionary before the samples are asked for.
\<close>

definition parameter_block ::
  "(sampler \<Rightarrow> error + sample list \<times> sampler) \<Rightarrow> sampler \<Rightarrow> error + pblock \<times> sampler"
where
  "parameter_block get_samples_of s =
     (case priv_parameter_block s of
        Some b \<Rightarrow> Inr (b, s)
      | None \<Rightarrow>
          (case get_samples_of (s\<lparr>priv_parameter_block := Some []\<rparr>) of
             Inl e \<Rightarrow> Inl e
           | Inr (samples, s1) \<Rightarrow>
               (let b = build_parameter_block samples
                in Inr (b, s1\<lparr>priv_parameter_block := Some b\<rparr>))))"

text \<open>\<^verbatim>\<open>[sample[key] for sample in samples]\<close>.\<close>

fun column_values :: "sample list \<Rightarrow> pykey \<Rightarrow> error + pyval list" where
  "column_values [] key = Inr []"
| "column_values (sample # samples) key =
     (case getitem sample key of
        Inl e \<Rightarrow> Inl e
      | Inr v \<Rightarrow>
          (case column_values samples key of Inl e \<Rightarrow> Inl e | Inr vs \<Rightarrow> Inr (v # vs)))"

fun convert_keys :: "sample list \<Rightarrow> pykey list \<Rightarrow> pblock \<Rightarrow> error + pblock" where
  "convert_keys samples [] params = Inr params"
| "convert_keys samples (key # ks) params =
     (case column_values samples key of
        Inl e \<Rightarrow> Inl e
      | Inr vals \<Rightarrow> convert_keys samples ks (dict_set params key (new_entry key vals)))"

text \<open>\<^verbatim>\<open>_convert_dict_to_maestro_params\<close> (utils.py); \<^verbatim>\<open>samples[0]\<close> raises IndexError.\<close>

definition convert_dict_to_maestro_params :: "sample list \<Rightarrow> error + pblock" where
  "convert_dict_to_maestro_params samples =
     (case samples of
        [] \<Rightarrow> Inl IndexError
      | first # rest \<Rightarrow> convert_keys samples (keys first) [])"

text \<open>The \<^verbatim>\<open>maestro_pgen\<close> property; \<open>MAESTROWF\<close> is the module's flag.\<close>

definition maestro_pgen ::
  "bool \<Rightarrow> (sampler \<Rightarrow> error + sample list \<times> sampler) \<Rightarrow> sampler \<Rightarrow> error + pgen \<times> sampler"
where
  "maestro_pgen MAESTROWF get_samples_of s =
     (if \<not> MAESTROWF then
        Inl (Exception (''maestrowf is not installed'' @ [CHR 0x0A] @
                        ''the maestro_pgen is not supported''))
      else
        (case priv_pgen s of
           Some g \<Rightarrow> Inr (g, s)
         | None \<Rightarrow>
             (case get_samples_of s of
                Inl e \<Rightarrow> Inl e
              | Inr (samples, s1) \<Rightarrow>
                  (case convert_dict_to_maestro_params samples of
                     Inl e \<Rightarrow> Inl e
                   | Inr params \<Rightarrow>
                       (let g = fold (\<lambda>(key, v) g.
                                  add_parameter g key (entry_values v) (entry_label v)) params []
                        in Inr (g, s1\<lparr>priv_pgen := Some g\<rparr>))))))"

subsection \<open>downselect\<close>

text \<open>
  A pandas data frame of numbers: the column names, and the rows as records over these
  columns. \<^verbatim>\<open>DataFrame.from_dict\<close> on a list of samples takes the keys in the order
  in which they are first seen; with \<^verbatim>\<open>None\<close> it gives the empty frame. A cell is an
  integer or a float. Outside the model are: a key that a sample lacks (a NaN cell), a
  cell that is not a number, and an integer beyond 2^53 in absolute value (one that a
  64-bit float does not hold exactly).
\<close>

type_synonym point = "real list"

record dataframe =
  df_columns :: "pykey list"
  df_records :: "(pykey \<times> pyval) list list"

definition first_seen :: "'a list \<Rightarrow> 'a list" where
  "first_seen xs = fold (\<lambda>x acc. if x \<in> set acc then acc else acc @ [x]) xs []"

fun cell_of :: "pyval option \<Rightarrow> error + pyval" where
  "cell_of None = Inl (Unsupported ''NaN cell'')"
| "cell_of (Some (PInt i)) =
     (if \<bar>i\<bar> \<le> 2 ^ 53 then Inr (PInt i) else Inl (Unsupported ''integer beyond 2^53''))"
| "cell_of (Some (PFloat x)) = Inr (PFloat x)"
| "cell_of (Some v) = Inl (Unsupported ''cell that is not a number'')"

fun record_of :: "sample \<Rightarrow> pykey list \<Rightarrow> error + (pykey \<times> pyval) list" where
  "record_of sample [] = Inr []"
| "record_of sample (c # cs) =
     (case cell_of (map_of sample c) of
        Inl e \<Rightarrow> Inl e
      | Inr v \<Rightarrow>
          (case record_of sample cs of Inl e \<Rightarrow> Inl e | Inr r \<Rightarrow> Inr ((c, v) # r)))"

fun records_of :: "sample list \<Rightarrow> pykey list \<Rightarrow> error + (pykey \<times> pyval) list list" where
  "records_of [] cols = Inr []"
| "records_of (sample # samples) cols =
     (case record_of sample cols of
        Inl e \<Rightarrow> Inl e
      | Inr r \<Rightarrow> (case records_of samples cols of Inl e \<Rightarrow> Inl e | Inr rs \<Rightarrow> Inr (r # rs)))"

definition DataFrame_from_dict :: "sample list option \<Rightarrow> error + dataframe" where
  "DataFrame_from_dict samples =
     (let ss = (case samples of None \<Rightarrow> [] | Some ss \<Rightarrow> ss);
          cols = first_seen (concat (map keys ss))
      in case records_of ss cols of
           Inl e \<Rightarrow> Inl e
         | Inr rs \<Rightarrow> Inr \<lparr>df_columns = cols, df_records = rs\<rparr>)"

text \<open>The number in a cell.\<close>

fun cell_value :: "pyval \<Rightarrow> real" where
  "cell_value (PInt i) = real_of_int i"
| "cell_value (PFloat x) = x"
| "cell_value v = 0"

text \<open>
  \<^verbatim>\<open>df[columns].values.tolist()\<close>: KeyError for a column that the frame does not have,
  else the rows restricted to \<open>columns\<close>, in that order, as points.
\<close>

fun row_cells :: "(pykey \<times> pyval) list \<Rightarrow> pykey list \<Rightarrow> error + point" where
  "row_cells r [] = Inr []"
| "row_cells r (c # cs) =
     (case map_of r c of
        None \<Rightarrow> Inl (KeyError c)
      | Some v \<Rightarrow>
          (case row_cells r cs of Inl e \<Rightarrow> Inl e | Inr p \<Rightarrow> Inr (cell_value v # p)))"

fun rows_cells :: "(pykey \<times> pyval) list list \<Rightarrow> pykey list \<Rightarrow> error + point list" where
  "rows_cells [] columns = Inr []"
| "rows_cells (r # rs) columns =
     (case row_cells r columns of
        Inl e \<Rightarrow> Inl e
      | Inr p \<Rightarrow> (case rows_cells rs columns of Inl e \<Rightarrow> Inl e | Inr ps \<Rightarrow> Inr (p # ps)))"

definition df_select :: "dataframe \<Rightarrow> pykey list \<Rightarrow> error + point list" where
  "df_select df columns =
     (case filter (\<lambda>c. c \<notin> set (df_columns df)) columns of
        c # cs \<Rightarrow> Inl (KeyError c)
      | [] \<Rightarrow> rows_cells (df_records df) columns)"

text \<open>
  \<^verbatim>\<open>df.iloc[i]\<close> as a record of \<^verbatim>\<open>to_dict(orient='records')\<close>. A row of a frame
  whose cells are all integers keeps its integers; in any other frame the row has the
  type of floats, and every cell is written back as a float.
\<close>

fun is_int :: "pyval \<Rightarrow> bool" where
  "is_int (PInt i) = True"
| "is_int v = False"

definition all_int :: "dataframe \<Rightarrow> bool" where
  "all_int df = list_all (\<lambda>r. list_all (\<lambda>(k, v). is_int v) r) (df_records df)"

definition df_row :: "dataframe \<Rightarrow> nat \<Rightarrow> sample" where
  "df_row df i =
     (if all_int df then df_records df ! i
      else map (\<lambda>(k, v). (k, PFloat (cell_value v))) (df_records df ! i))"

text \<open>
  The KD-tree of scipy is an external library: \<open>distance p q\<close> stands for the distance
  between two points that it computes in 64-bit floats, a parameter of the model.
  \<^verbatim>\<open>tree.query(pos)[0]\<close> for the tree over the points \<open>px\<close> is the least of the
  distances from \<open>pos\<close> to these points. A tree over no points cannot be built.
\<close>

definition KDTree :: "point list \<Rightarrow> error + point list" where
  "KDTree px = (if px = [] then Inl ValueError else Inr px)"

definition tree_query :: "(point \<Rightarrow> point \<Rightarrow> real) \<Rightarrow> point list \<Rightarrow> point \<Rightarrow> real" where
  "tree_query distance tree pos = Min (set (map (distance pos) tree))"

text \<open>
  The inner loop over \<^verbatim>\<open>range(1, bign)\<close>: \<open>(j, d)\<close> is the best index so far and its
  distance, starting from \<open>(bign, 0)\<close>; only a strictly larger distance replaces it.
\<close>

definition search_step ::
  "(point \<Rightarrow> point \<Rightarrow> real) \<Rightarrow> point list \<Rightarrow> point list \<Rightarrow> nat \<Rightarrow> nat \<times> real \<Rightarrow> nat \<times> real"
where
  "search_step distance tree candidates i jd =
     (let d = tree_query distance tree (candidates ! i)
      in if d > snd jd then (i, d) else jd)"

definition search :: "(point \<Rightarrow> point \<Rightarrow> real) \<Rightarrow> point list \<Rightarrow> point list \<Rightarrow> nat \<times> real" where
  "search distance tree candidates =
     (let bign = length candidates
      in fold (search_step distance tree candidates) [1..<bign] (bign, 0))"

text \<open>
  The outer loop, by the number of iterations left. The state is
  \<open>(sample_points, new_sample_points, new_sample_ids)\<close>.
\<close>

fun select_loop ::
  "(point \<Rightarrow> point \<Rightarrow> real) \<Rightarrow> point list \<Rightarrow> nat \<Rightarrow> point list \<times> point list \<times> nat list \<Rightarrow>
   error + point list \<times> point list \<times> nat list"
where
  "select_loop distance candidates 0 st = Inr st"
| "select_loop distance candidates (Suc k) (sample_points, new_sample_points, new_sample_ids) =
     (case KDTree sample_points of
        Inl e \<Rightarrow> Inl e
      | Inr tree \<Rightarrow>
          (let j = fst (search distance tree candidates)
           in if j = length candidates then
                Inl (Exception (''During 'downselect', failed to find any '' @
                                ''candidates in the tree.''))
              else select_loop distance candidates k
                     (sample_points @ [candidates ! j],
                      new_sample_points @ [candidates ! j],
                      new_sample_ids @ [j])))"

text \<open>
  The start of the selection: without \<^verbatim>\<open>previous_samples\<close> the first candidate is the
  seed and counts as selected; with it, the points of the file seed the tree and nothing
  is selected yet. \<open>pd_read_csv\<close> is \<^verbatim>\<open>pandas.read_csv\<close> on the file system.
\<close>

definition seed_points ::
  "(string \<Rightarrow> error + dataframe) \<Rightarrow> config \<Rightarrow> pykey list \<Rightarrow> point list \<Rightarrow>
   error + (point list \<times> point list \<times> nat list) \<times> nat"
where
  "seed_points pd_read_csv d columns candidates =
     (case cfg_previous_samples d of
        None \<Rightarrow>
          (case candidates of
             [] \<Rightarrow> Inl IndexError
           | c0 # cs \<Rightarrow> Inr (([c0], [c0], [0]), 1))
      | Some path \<Rightarrow>
          (case pd_read_csv path of
             Inl ValueError \<Rightarrow>
               Inl (Exception (''Error opening previous_samples datafile:'' @ path))
           | Inl e \<Rightarrow> Inl e
           | Inr previous_samples \<Rightarrow>
               (case df_select previous_samples columns of
                  Inl e \<Rightarrow> Inl e
                | Inr pts \<Rightarrow> Inr ((pts, [], []), 0))))"

text \<open>
  \<^verbatim>\<open>downselect\<close>. \<open>PANDAS_PLUS\<close> is the module's flag. The extrema \<^verbatim>\<open>mins\<close> and
  \<^verbatim>\<open>maxs\<close> are only printed and are left out. The loop runs over
  \<^verbatim>\<open>range(n0, num_points)\<close>. The selected rows are collected with
  \<^verbatim>\<open>DataFrame.append\<close>, which the pandas of the code's time has.
\<close>

definition downselect ::
  "(point \<Rightarrow> point \<Rightarrow> real) \<Rightarrow> bool \<Rightarrow> (string \<Rightarrow> error + dataframe) \<Rightarrow> sampler \<Rightarrow> int \<Rightarrow>
   error + sampler"
where
  "downselect distance PANDAS_PLUS pd_read_csv s num_points =
     (if \<not> PANDAS_PLUS then
        log_and_raise_exception ''This function requires pandas, numpy & scipy packages''
      else
        (case DataFrame_from_dict (priv_samples s) of
           Inl e \<Rightarrow> Inl e
         | Inr df \<Rightarrow>
             (case df_select df (parameters s) of
                Inl e \<Rightarrow> Inl e
              | Inr candidates \<Rightarrow>
                  (case seed_points pd_read_csv (data s) (parameters s) candidates of
                     Inl e \<Rightarrow> Inl e
                   | Inr (st, n0) \<Rightarrow>
                       (case select_loop distance candidates (nat (num_points - int n0)) st of
                          Inl e \<Rightarrow> Inl e
                        | Inr (sample_points, new_sample_points, new_sample_ids) \<Rightarrow>
                            Inr (s\<lparr>priv_samples :=
                                      Some (map (df_row df) new_sample_ids)\<rparr>))))))"

section \<open>random.py\<close>

subsection \<open>is_valid\<close>

text \<open>
  The classes of the hierarchy with the names that each class body binds, and the
  method resolution order of RandomSampler. \<open>super_getattr C name\<close> is the lookup of
  \<^verbatim>\<open>super(C, self).name\<close>: the first class after \<open>C\<close> in the order that binds the name.
\<close>

datatype cls = RandomSampler | BaseSampler | SamplerInterface | ABC | PyObject

fun class_attrs :: "cls \<Rightarrow> string list" where
  "class_attrs RandomSampler = [''is_valid'', ''parameters'', ''get_samples'']"
| "class_attrs BaseSampler =
     [''_ALLOWED_SAMPLING_DICT'', ''ALLOWED_SAMPLING_KEYS'', ''__init__'', ''check_validity'',
      ''data'', ''_parameters_constants_parameters_only'', ''_check_variables'',
      ''_check_variables_strings'', ''_check_variables_existence'',
      ''_check_variables_for_dups'', ''parameter_block'', ''maestro_pgen'', ''downselect'']"
| "class_attrs SamplerInterface =
     [''data'', ''check_validity'', ''get_samples'', ''parameters'', ''parameter_block'']"
| "class_attrs ABC = [''__slots__'']"
| "class_attrs PyObject =
     [''__class__'', ''__delattr__'', ''__dir__'', ''__doc__'', ''__eq__'', ''__format__'',
      ''__ge__'', ''__getattribute__'', ''__gt__'', ''__hash__'', ''__init__'',
      ''__init_subclass__'', ''__le__'', ''__lt__'', ''__ne__'', ''__new__'', ''__reduce__'',
      ''__reduce_ex__'', ''__repr__'', ''__setattr__'', ''__sizeof__'', ''__str__'',
      ''__subclasshook__'']"

definition mro :: "cls list" where
  "mro = [RandomSampler, BaseSampler, SamplerInterface, ABC, PyObject]"

definition super_getattr :: "cls \<Rightarrow> string \<Rightarrow> cls option" where
  "super_getattr C name =
     (case filter (\<lambda>D. name \<in> set (class_attrs D)) (tl (dropWhile (\<lambda>D. D \<noteq> C) mro)) of
        [] \<Rightarrow> None
      | D # Ds \<Rightarrow> Some D)"

text \<open>The loop over \<^verbatim>\<open>self.data["parameters"].items()\<close> that checks the bounds.\<close>

fun check_bounds :: "(real \<Rightarrow> string) \<Rightarrow> (pykey \<times> (pykey \<times> pyval) list) list \<Rightarrow> error + unit" where
  "check_bounds float_repr [] = Inr ()"
| "check_bounds float_repr ((key, v) # items) =
     (case getitem v (KStr ''min'') of
        Inl e \<Rightarrow> Inl e
      | Inr mn \<Rightarrow>
          if \<not> isnumeric (py_str float_repr mn) then
            log_and_raise_exception ''parameter must have a numeric minimum''
          else
            (case getitem v (KStr ''max'') of
               Inl e \<Rightarrow> Inl e
             | Inr mx \<Rightarrow>
                 if \<not> isnumeric (py_str float_repr mx) then
                   log_and_raise_exception ''parameter must have a numeric maximum''
                 else check_bounds float_repr items))"

text \<open>The statements of \<^verbatim>\<open>is_valid\<close> that follow the call of the superclass.\<close>

definition is_valid_checks ::
  "(real \<Rightarrow> string) \<Rightarrow> (pykey set \<Rightarrow> string) \<Rightarrow> sampler \<Rightarrow> error + bool"
where
  "is_valid_checks float_repr str_set s =
     (case check_variables str_set s of
        Inl e \<Rightarrow> Inl e
      | Inr u \<Rightarrow>
          (case cfg_parameters (data s) of
             None \<Rightarrow> Inl (KeyError (KStr ''parameters''))
           | Some ps \<Rightarrow>
               (case check_bounds float_repr ps of Inl e \<Rightarrow> Inl e | Inr u \<Rightarrow> Inr True)))"

text \<open>
  \<^verbatim>\<open>is_valid\<close> starts with \<^verbatim>\<open>super(RandomSampler, self).is_valid()\<close>: when no class
  after RandomSampler binds \<^verbatim>\<open>is_valid\<close> the attribute lookup raises AttributeError.
  No class of the hierarchy gives a body to call, so in the other branch the method
  goes on with its own checks.
\<close>

definition is_valid ::
  "(real \<Rightarrow> string) \<Rightarrow> (pykey set \<Rightarrow> string) \<Rightarrow> sampler \<Rightarrow> error + bool"
where
  "is_valid float_repr str_set s =
     (case super_getattr RandomSampler ''is_valid'' of
        None \<Rightarrow> Inl (AttributeError ''is_valid'')
      | Some D \<Rightarrow> is_valid_checks float_repr str_set s)"

subsection \<open>get_samples\<close>

text \<open>
  The first loop: \<^verbatim>\<open>min_dict[key] = value["min"]\<close> and
  \<^verbatim>\<open>range_dict[key] = value["max"] - value["min"]\<close>.
\<close>

fun bounds_loop ::
  "(pykey \<times> (pykey \<times> pyval) list) list \<Rightarrow> (pykey \<times> pyval) list \<Rightarrow> (pykey \<times> pyval) list \<Rightarrow>
   error + (pykey \<times> pyval) list \<times> (pykey \<times> pyval) list"
where
  "bounds_loop [] min_dict range_dict = Inr (min_dict, range_dict)"
| "bounds_loop ((key, v) # items) min_dict range_dict =
     (case getitem v (KStr ''min'') of
        Inl e \<Rightarrow> Inl e
      | Inr mn \<Rightarrow>
          (case getitem v (KStr ''max'') of
             Inl e \<Rightarrow> Inl e
           | Inr mx \<Rightarrow>
               (case py_sub mx mn of
                  Inl e \<Rightarrow> Inl e
                | Inr w \<Rightarrow>
                    bounds_loop items (dict_set min_dict key mn)
                      (dict_set range_dict key w))))"

text \<open>
  The draws: \<open>rnd n\<close> is the result of the \<open>n\<close>-th call of \<^verbatim>\<open>random.random()\<close>, a float.
  The inner loop fills one \<^verbatim>\<open>random_dictionary\<close> with
  \<^verbatim>\<open>min_dict[key] + random.random() * range_dict[key]\<close>, the outer loop appends one
  per sample.
\<close>

fun random_dictionary_loop ::
  "(nat \<Rightarrow> real) \<Rightarrow> nat \<Rightarrow> pykey list \<Rightarrow> (pykey \<times> pyval) list \<Rightarrow> (pykey \<times> pyval) list \<Rightarrow>
   sample \<Rightarrow> error + sample"
where
  "random_dictionary_loop rnd n [] min_dict range_dict random_dictionary =
     Inr random_dictionary"
| "random_dictionary_loop rnd n (key # ks) min_dict range_dict random_dictionary =
     (case getitem min_dict key of
        Inl e \<Rightarrow> Inl e
      | Inr a \<Rightarrow>
          (case getitem range_dict key of
             Inl e \<Rightarrow> Inl e
           | Inr w \<Rightarrow>
               (case float_mul (rnd n) w of
                  Inl e \<Rightarrow> Inl e
                | Inr p \<Rightarrow>
                    (case add_float a p of
                       Inl e \<Rightarrow> Inl e
                     | Inr x \<Rightarrow>
                         random_dictionary_loop rnd (Suc n) ks min_dict range_dict
                           (dict_set random_dictionary key (PFloat x))))))"

fun random_list_loop ::
  "(nat \<Rightarrow> real) \<Rightarrow> nat \<Rightarrow> nat \<Rightarrow> pykey list \<Rightarrow> (pykey \<times> pyval) list \<Rightarrow> (pykey \<times> pyval) list \<Rightarrow>
   sample list \<Rightarrow> error + sample list"
where
  "random_list_loop rnd n 0 ks min_dict range_dict random_list = Inr random_list"
| "random_list_loop rnd n (Suc k) ks min_dict range_dict random_list =
     (case random_dictionary_loop rnd n ks min_dict range_dict [] of
        Inl e \<Rightarrow> Inl e
      | Inr random_dictionary \<Rightarrow>
          random_list_loop rnd (n + length ks) k ks min_dict range_dict
            (random_list @ [random_dictionary]))"

text \<open>
  The last loop: the constants go in first (a missing block is skipped), then the drawn
  values.
\<close>

definition merge_sample :: "(pykey \<times> pyval) list option \<Rightarrow> sample \<Rightarrow> sample" where
  "merge_sample consts random_dictionary =
     (let new_sample = [];
          new_sample = (case consts of None \<Rightarrow> new_sample | Some c \<Rightarrow> dict_update new_sample c)
      in dict_update new_sample random_dictionary)"

definition get_samples :: "(nat \<Rightarrow> real) \<Rightarrow> sampler \<Rightarrow> error + sample list \<times> sampler" where
  "get_samples rnd s =
     (case priv_samples s of
        Some samples \<Rightarrow> Inr (samples, s)
      | None \<Rightarrow>
          (case cfg_parameters (data s) of
             None \<Rightarrow> Inl (KeyError (KStr ''parameters''))
           | Some ps \<Rightarrow>
               (case bounds_loop ps [] [] of
                  Inl e \<Rightarrow> Inl e
                | Inr (min_dict, range_dict) \<Rightarrow>
                    (case cfg_num_samples (data s) of
                       None \<Rightarrow> Inl (KeyError (KStr ''num_samples''))
                     | Some (PInt N) \<Rightarrow>
                         (case random_list_loop rnd 0 (nat N) (keys ps) min_dict range_dict [] of
                            Inl e \<Rightarrow> Inl e
                          | Inr random_list \<Rightarrow>
                              (let samples = map (merge_sample (cfg_constants (data s))) random_list
                               in Inr (samples, s\<lparr>priv_samples := Some samples\<rparr>)))
                     | Some v \<Rightarrow> Inl TypeError))))"

section \<open>bin/pgen_scisample.py\<close>

text \<open>
  What \<^verbatim>\<open>env.find(name)\<close> of the orchestrator's environment does: it raises, or it
  returns an object without the attribute \<^verbatim>\<open>value\<close> (such as \<^verbatim>\<open>None\<close>), or it
  returns a variable with its value.
\<close>

datatype 'a found = Raises error | NoValue | HasValue 'a

text \<open>
  \<^verbatim>\<open>get_custom_generator\<close>. The second argument of \<^verbatim>\<open>kwargs.get\<close> is evaluated
  before the call, so the lookup in the environment comes first. The factory
  \<^verbatim>\<open>new_sampler\<close> is not among the source files: it is a parameter that gives the
  sampler together with the \<^verbatim>\<open>get_samples\<close> of its class.
\<close>

definition get_custom_generator ::
  "bool \<Rightarrow> (config \<Rightarrow> error + sampler \<times> (sampler \<Rightarrow> error + sample list \<times> sampler)) \<Rightarrow>
   (string \<Rightarrow> config found) \<Rightarrow> (string \<Rightarrow> config option) \<Rightarrow> error + pgen"
where
  "get_custom_generator MAESTROWF new_sampler env_find kwargs =
     (case (case env_find ''SAMPLE_DICTIONARY'' of
              Raises e \<Rightarrow> Inl e
            | NoValue \<Rightarrow> Inl (AttributeError ''value'')
            | HasValue v \<Rightarrow> Inr v) of
        Inl ValueError \<Rightarrow>
          Inl (Exception (''this pgen code requires SAMPLE_DICTIONARY '' @
                          ''to be defined in the yaml specification''))
      | Inl e \<Rightarrow> Inl e
      | Inr dflt \<Rightarrow>
          (let SAMPLE_DICTIONARY =
                 (case kwargs ''sample_dictionary'' of Some d \<Rightarrow> d | None \<Rightarrow> dflt)
           in case new_sampler SAMPLE_DICTIONARY of
                Inl e \<Rightarrow> Inl e
              | Inr (s, get_samples_of) \<Rightarrow>
                  (case maestro_pgen MAESTROWF get_samples_of s of
                     Inl e \<Rightarrow> Inl e
                   | Inr (g, s1) \<Rightarrow> Inr g)))"

section \<open>Predicates of the properties\<close>

text \<open>A string with no whitespace at its start and none at its end.\<close>

definition no_outer_space :: "string \<Rightarrow> bool" where
  "no_outer_space s = (s = [] \<or> (\<not> isspace (hd s) \<and> \<not> isspace (last s)))"

text \<open>A configuration of the random strategy whose minimum is the string \<^verbatim>\<open>a\<close>.\<close>

definition bad_minimum_config :: config where
  "bad_minimum_config =
     \<lparr>cfg_type = Some (PStr ''random''), cfg_num_samples = Some (PInt 1),
      cfg_previous_samples = None, cfg_constants = None,
      cfg_parameters = Some [(KStr ''X'', [(KStr ''min'', PStr ''a''), (KStr ''max'', PInt 10)])]\<rparr>"

text \<open>The count that \<open>seen\<close> holds for an item in \<^verbatim>\<open>find_duplicates\<close>.\<close>

fun cnt :: "('a \<Rightarrow> nat option) \<Rightarrow> 'a \<Rightarrow> nat" where
  "cnt seen x = (case seen x of None \<Rightarrow> 0 | Some n \<Rightarrow> n)"

text \<open>A configuration in which \<^verbatim>\<open>X2\<close> is a constant and a ranged parameter.\<close>

definition dup_config :: config where
  "dup_config =
     \<lparr>cfg_type = Some (PStr ''random''), cfg_num_samples = Some (PInt 2),
      cfg_previous_samples = None,
      cfg_constants = Some [(KStr ''X1'', PInt 20), (KStr ''X2'', PInt 3)],
      cfg_parameters =
        Some [(KStr ''X2'', [(KStr ''min'', PInt 5), (KStr ''max'', PInt 10)]),
              (KStr ''X3'', [(KStr ''min'', PInt 5), (KStr ''max'', PInt 10)])]\<rparr>"

text \<open>
  The parameter block that the samples should give: for each key of \<open>ks\<close>, in this
  order, the values of the key over the samples and the label of the key.
\<close>

definition block_of :: "pykey list \<Rightarrow> sample list \<Rightarrow> pblock" where
  "block_of ks samples = map (\<lambda>k. (k, new_entry k (map (\<lambda>s. the (map_of s k)) samples))) ks"

text \<open>Every sample is a dictionary and has the keys of the first sample.\<close>

definition same_keys :: "sample list \<Rightarrow> bool" where
  "same_keys samples =
     (\<forall>s \<in> set samples. is_dict s \<and> set (keys s) = set (keys (hd samples)))"

text \<open>Two samples with the keys in different orders, and their parameter block.\<close>

definition two_samples :: "sample list" where
  "two_samples = [[(KStr ''a'', PInt 1), (KStr ''b'', PInt 2)],
                  [(KStr ''b'', PInt 3), (KStr ''a'', PInt 5)]]"

definition two_block :: pblock where
  "two_block = [(KStr ''a'', \<lparr>entry_values = [PInt 1, PInt 5], entry_label = ''a.%%''\<rparr>),
                (KStr ''b'', \<lparr>entry_values = [PInt 2, PInt 3], entry_label = ''b.%%''\<rparr>)]"

text \<open>The number that a value is, if it is one.\<close>

fun number :: "pyval \<Rightarrow> real option" where
  "number (PInt i) = Some (real_of_int i)"
| "number (PFloat x) = Some x"
| "number v = None"

text \<open>The number that a dictionary of bounds holds under \<open>name\<close>, if it holds one.\<close>

definition bound_value :: "(pykey \<times> pyval) list \<Rightarrow> string \<Rightarrow> real option" where
  "bound_value v name = (case map_of v (KStr name) of Some a \<Rightarrow> number a | None \<Rightarrow> None)"

definition lo :: "(pykey \<times> pyval) list \<Rightarrow> real" where
  "lo v = the (bound_value v ''min'')"

definition hi :: "(pykey \<times> pyval) list \<Rightarrow> real" where
  "hi v = the (bound_value v ''max'')"

text \<open>Numeric bounds with min < max.\<close>

definition numeric_bounds :: "(pykey \<times> pyval) list \<Rightarrow> bool" where
  "numeric_bounds v =
     (case (bound_value v ''min'', bound_value v ''max'') of
        (Some a, Some b) \<Rightarrow> a < b
      | _ \<Rightarrow> False)"

text \<open>
  A bound that a float holds exactly: a float, or an integer of absolute value at most
  2^53.
\<close>

fun float_bound :: "pyval \<Rightarrow> bool" where
  "float_bound (PInt i) = (\<bar>i\<bar> \<le> 2 ^ 53)"
| "float_bound (PFloat x) = is_float x"
| "float_bound v = False"

text \<open>Such bounds with min < max, whose difference as a float is finite.\<close>

definition float_bounds :: "(pykey \<times> pyval) list \<Rightarrow> bool" where
  "float_bounds v =
     (case (map_of v (KStr ''min''), map_of v (KStr ''max'')) of
        (Some a, Some b) \<Rightarrow>
          float_bound a \<and> float_bound b \<and> lo v < hi v \<and> round_float (hi v - lo v) < 2 ^ 1024
      | _ \<Rightarrow> False)"

text \<open>The entries of \<^verbatim>\<open>min_dict\<close> and \<^verbatim>\<open>range_dict\<close> for the bounds of a parameter.\<close>

definition min_of :: "(pykey \<times> pyval) list \<Rightarrow> pyval" where
  "min_of v = the (map_of v (KStr ''min''))"

definition range_of :: "(pykey \<times> pyval) list \<Rightarrow> pyval" where
  "range_of v = projr (py_sub (the (map_of v (KStr ''max''))) (min_of v))"

text \<open>The value min + f * (max - min) in floats: each operation rounds its result.\<close>

definition sample_value :: "real \<Rightarrow> real \<Rightarrow> real \<Rightarrow> real" where
  "sample_value a b f = round_float (a + round_float (f * round_float (b - a)))"

text \<open>A configuration of one sample of one parameter \<^verbatim>\<open>X\<close> between 1 and 2.\<close>

definition unit_config :: config where
  "unit_config =
     \<lparr>cfg_type = Some (PStr ''random''), cfg_num_samples = Some (PInt 1),
      cfg_previous_samples = None, cfg_constants = None,
      cfg_parameters = Some [(KStr ''X'', [(KStr ''min'', PInt 1), (KStr ''max'', PInt 2)])]\<rparr>"

text \<open>A configuration whose upper bound is an integer beyond the floats.\<close>

definition huge_config :: config where
  "huge_config =
     \<lparr>cfg_type = Some (PStr ''random''), cfg_num_samples = Some (PInt 1),
      cfg_previous_samples = None, cfg_constants = None,
      cfg_parameters =
        Some [(KStr ''X'', [(KStr ''min'', PInt 0), (KStr ''max'', PInt (2 ^ 1024))])]\<rparr>"

text \<open>The items of \<^verbatim>\<open>constants\<close>, none when the block is missing.\<close>

definition const_items :: "config \<Rightarrow> (pykey \<times> pyval) list" where
  "const_items d = (case cfg_constants d of None \<Rightarrow> [] | Some c \<Rightarrow> c)"

text \<open>A configuration with one constant and one ranged parameter, and two samples.\<close>

definition sample_config :: config where
  "sample_config =
     \<lparr>cfg_type = Some (PStr ''random''), cfg_num_samples = Some (PInt 2),
      cfg_previous_samples = None,
      cfg_constants = Some [(KStr ''X1'', PInt 20)],
      cfg_parameters = Some [(KStr ''X2'', [(KStr ''min'', PInt 5), (KStr ''max'', PInt 10)])]\<rparr>"

text \<open>
  A configuration in which \<^verbatim>\<open>X2\<close> is a constant and a ranged parameter, and one
  constant has the integer key 1.
\<close>

definition int_key_config :: config where
  "int_key_config =
     \<lparr>cfg_type = Some (PStr ''random''), cfg_num_samples = Some (PInt 2),
      cfg_previous_samples = None,
      cfg_constants = Some [(KInt 1, PInt 20), (KStr ''X2'', PInt 3)],
      cfg_parameters =
        Some [(KStr ''X2'', [(KStr ''min'', PInt 5), (KStr ''max'', PInt 10)])]\<rparr>"

text \<open>A configuration with nothing but its \<^verbatim>\<open>type\<close> entry, when it has one.\<close>

definition untyped_config :: "pyval option \<Rightarrow> config" where
  "untyped_config t =
     \<lparr>cfg_type = t, cfg_num_samples = None, cfg_previous_samples = None,
      cfg_constants = None, cfg_parameters = None\<rparr>"

text \<open>What the properties need of the distance: never negative, and zero from a point to itself.\<close>

definition distance_ok :: "(point \<Rightarrow> point \<Rightarrow> real) \<Rightarrow> bool" where
  "distance_ok distance = ((\<forall>p q. 0 \<le> distance p q) \<and> (\<forall>p. distance p p = 0))"


text \<open>
  The Euclidean distance in exact arithmetic. The distance in 64-bit floats agrees with
  it where the exact results are held by floats, as for the points of the examples.
\<close>

definition euclid :: "point \<Rightarrow> point \<Rightarrow> real" where
  "euclid p q = sqrt (sum_list (map (\<lambda>(a, b). (a - b)\<^sup>2) (zip p q)))"

text \<open>
  Samplers of one ranged parameter \<^verbatim>\<open>X\<close> whose cached samples hold the given values
  of \<^verbatim>\<open>X\<close>, and the data frame of these samples.
\<close>

definition pool_config :: config where
  "pool_config =
     \<lparr>cfg_type = Some (PStr ''random''), cfg_num_samples = Some (PInt 4),
      cfg_previous_samples = None, cfg_constants = None,
      cfg_parameters = Some [(KStr ''X'', [(KStr ''min'', PInt 0), (KStr ''max'', PInt 5)])]\<rparr>"

definition pool_sampler :: "pyval list \<Rightarrow> sampler" where
  "pool_sampler vs =
     (init_sampler pool_config)\<lparr>priv_samples := Some (map (\<lambda>v. [(KStr ''X'', v)]) vs)\<rparr>"

definition pool_df :: "pyval list \<Rightarrow> dataframe" where
  "pool_df vs = \<lparr>df_columns = [KStr ''X''], df_records = map (\<lambda>v. [(KStr ''X'', v)]) vs\<rparr>"

text \<open>A file system without files, for \<^verbatim>\<open>pandas.read_csv\<close>.\<close>

definition no_files :: "string \<Rightarrow> error + dataframe" where
  "no_files path = Inl (FileNotFoundError path)"

section \<open>Properties of utils.py\<close>

lemma dropWhile_rev_id: "s \<noteq> [] \<Longrightarrow> \<not> P (last s) \<Longrightarrow> dropWhile P (rev s) = rev s"
  by (cases s rule: rev_cases) auto

lemma strip_id: "no_outer_space s \<Longrightarrow> strip s = s"
proof (cases s)
  case Nil
  then show ?thesis by (simp add: strip_def)
next
  case (Cons c cs)
  assume "no_outer_space s"
  with Cons have h: "\<not> isspace c" and l: "\<not> isspace (last s)"
    by (auto simp: no_outer_space_def)
  from h Cons have 1: "dropWhile isspace s = s" by simp
  from Cons l have "dropWhile isspace (rev s) = rev s"
    by (intro dropWhile_rev_id) auto
  with 1 show ?thesis by (simp add: strip_def)
qed

lemma comma_not_space: "\<not> isspace CHR '',''"
  by (simp add: isspace_def)

lemma no_outer_space_join:
  "\<forall>s \<in> set row. no_outer_space s \<Longrightarrow> no_outer_space (join '','' row)"
proof (induction "'',''" row rule: join.induct)
  case 1
  then show ?case by (simp add: no_outer_space_def)
next
  case (2 x)
  then show ?case by simp
next
  case (3 x y ys)
  then have a: "no_outer_space x" and b: "no_outer_space (join '','' (y # ys))" by auto
  show ?case using a b comma_not_space
    by (auto simp: no_outer_space_def hd_append)
qed

lemma split_ne: "split sep s \<noteq> []"
  by (cases s) auto

lemma split_no_sep:
  "sep \<notin> set s \<Longrightarrow> split sep (s @ t) = (s @ hd (split sep t)) # tl (split sep t)"
  by (induction s) (auto simp: split_ne)

lemma split_join:
  "row \<noteq> [] \<Longrightarrow> \<forall>s \<in> set row. sep \<notin> set s \<Longrightarrow> split sep (join [sep] row) = row"
proof (induction "[sep]" row rule: join.induct)
  case 1
  then show ?case by simp
next
  case (2 x)
  then have "sep \<notin> set x" by simp
  from split_no_sep[OF this, of "[]"] show ?case by simp
next
  case (3 x y ys)
  then have x: "sep \<notin> set x" and ih: "split sep (join [sep] (y # ys)) = y # ys" by auto
  have "split sep (x @ sep # join [sep] (y # ys)) = (x @ []) # split sep (join [sep] (y # ys))"
    using split_no_sep[OF x, of "sep # join [sep] (y # ys)"] by simp
  with ih show ?case by simp
qed

lemma py_format_plain:
  "c \<noteq> CHR ''{'' \<Longrightarrow> c \<noteq> CHR ''}'' \<Longrightarrow>
   py_format (c # fs) args = (case py_format fs args of Inl e \<Rightarrow> Inl e | Inr r \<Rightarrow> Inr (c # r))"
  by (cases fs) auto

lemma py_format_join:
  "py_format (join '','' (replicate (length xs) ''{}'')) xs = Inr (join '','' xs)"
proof (induction "'',''" xs rule: join.induct)
  case 1
  then show ?case by simp
next
  case (2 x)
  then show ?case by simp
next
  case (3 x y ys)
  then show ?case by (simp add: py_format_plain)
qed

lemma list_to_csv_join: "list_to_csv str_of row = Inr (join '','' (map str_of row))"
  using py_format_join[of "map str_of row"] by (simp add: list_to_csv_def)

lemma csv_example_read:
  "fs name = Some (''1,2,3'' @ [CHR 0x0A] @ ''4,5,6'' @ [CHR 0x0A]) \<Longrightarrow>
   read_csv fs name = Inr [[''1'', ''2'', ''3''], [''4'', ''5'', ''6'']]"
  by (simp add: read_csv_def parse_line_def strip_def isspace_def)

lemma csv_example_transpose:
  "transpose_tabular [[''1'', ''2'', ''3''], [''4'', ''5'', ''6'']] =
   [[''1'', ''4''], [''2'', ''5''], [''3'', ''6'']]"
  by (simp add: transpose_tabular_def upt_conv_Cons)

lemma csv_round_trip:
  assumes "row \<noteq> []"
    and "\<forall>s \<in> set row. CHR '','' \<notin> set s \<and> no_outer_space s"
  shows "\<exists>line. list_to_csv (\<lambda>x. x) row = Inr line \<and> parse_line line = row"
proof -
  have 1: "list_to_csv (\<lambda>x. x) row = Inr (join '','' row)"
    by (simp add: list_to_csv_join)
  have "no_outer_space (join '','' row)"
    using assms(2) by (intro no_outer_space_join) simp
  then have "strip (join '','' row) = join '','' row" by (rule strip_id)
  moreover have "split CHR '','' (join '','' row) = row"
    using assms by (intro split_join) auto
  ultimately have "parse_line (join '','' row) = row" by (simp add: parse_line_def)
  with 1 show ?thesis by blast
qed

text \<open>
  C9. A file with the lines \<^verbatim>\<open>1,2,3\<close> and \<^verbatim>\<open>4,5,6\<close> is read as the two rows of
  three strings; the transpose of these rows is the three columns of two strings; and a
  row of strings that is not empty, whose strings hold no comma and have no whitespace
  at either end, is given back by \<open>parse_line\<close> (what \<^verbatim>\<open>read_csv\<close> does with each
  line) from the text that \<^verbatim>\<open>list_to_csv\<close> makes of it.
\<close>

theorem csv_read_transpose_round_trip:
  "(fs name = Some (''1,2,3'' @ [CHR 0x0A] @ ''4,5,6'' @ [CHR 0x0A]) \<longrightarrow>
      read_csv fs name = Inr [[''1'', ''2'', ''3''], [''4'', ''5'', ''6'']])
   \<and> transpose_tabular [[''1'', ''2'', ''3''], [''4'', ''5'', ''6'']] =
       [[''1'', ''4''], [''2'', ''5''], [''3'', ''6'']]
   \<and> (row \<noteq> [] \<and> (\<forall>s \<in> set row. CHR '','' \<notin> set s \<and> no_outer_space s) \<longrightarrow>
       (\<exists>line. list_to_csv (\<lambda>x. x) row = Inr line \<and> parse_line line = row))"
  using csv_example_read csv_example_transpose csv_round_trip by blast

theorem csv_read_transpose_round_trip_witness:
  "read_csv (\<lambda>f. if f = ''samples.csv'' then Some (''1,2,3'' @ [CHR 0x0A] @ ''4,5,6'' @ [CHR 0x0A])
                  else None) ''samples.csv''
     = Inr [[''1'', ''2'', ''3''], [''4'', ''5'', ''6'']]
   \<and> [''a b'', [], ''7''] \<noteq> []
   \<and> list_all (\<lambda>s. CHR '','' \<notin> set s \<and> no_outer_space s) [''a b'', [], ''7'']
   \<and> list_to_csv (\<lambda>x. x) [''a b'', [], ''7''] = Inr ''a b,,7''
   \<and> parse_line ''a b,,7'' = [''a b'', [], ''7'']"
proof -
  let ?fs = "\<lambda>f. if f = ''samples.csv''
                  then Some (''1,2,3'' @ [CHR 0x0A] @ ''4,5,6'' @ [CHR 0x0A]) else None"
  have h: "[''a b'', [], ''7''] \<noteq> [] \<and>
           (\<forall>s \<in> set [''a b'', [], ''7'']. CHR '','' \<notin> set s \<and> no_outer_space s)"
    by (simp add: no_outer_space_def isspace_def)
  have f: "?fs ''samples.csv'' = Some (''1,2,3'' @ [CHR 0x0A] @ ''4,5,6'' @ [CHR 0x0A])"
    by simp
  from csv_read_transpose_round_trip[of ?fs "''samples.csv''" "[''a b'', [], ''7'']"] h f
  have "read_csv ?fs ''samples.csv'' = Inr [[''1'', ''2'', ''3''], [''4'', ''5'', ''6'']]
        \<and> (\<exists>line. list_to_csv (\<lambda>x. x) [''a b'', [], ''7''] = Inr line
              \<and> parse_line line = [''a b'', [], ''7''])"
    by blast
  moreover have "list_to_csv (\<lambda>x. x) [''a b'', [], ''7''] = Inr ''a b,,7''"
    by (simp add: list_to_csv_def)
  ultimately show ?thesis using h by (auto simp: list_all_iff)
qed

section \<open>Properties of RandomSampler.is_valid\<close>

text \<open>
  C10. For every sampler, \<^verbatim>\<open>is_valid\<close> raises AttributeError at the call of the
  superclass, whatever the configuration: no class after RandomSampler in the method
  resolution order binds \<^verbatim>\<open>is_valid\<close>; BaseSampler and SamplerInterface do not, while
  BaseSampler binds \<^verbatim>\<open>check_validity\<close>. The result does not depend on the checks
  that follow the call.
\<close>

theorem is_valid_raises_attribute_error:
  "is_valid float_repr str_set s = Inl (AttributeError ''is_valid'')
   \<and> super_getattr RandomSampler ''is_valid'' = None
   \<and> ''is_valid'' \<notin> set (class_attrs BaseSampler)
   \<and> ''is_valid'' \<notin> set (class_attrs SamplerInterface)
   \<and> ''check_validity'' \<in> set (class_attrs BaseSampler)"
  by (simp add: is_valid_def super_getattr_def mro_def)

text \<open>
  C4, at a configuration whose minimum is the string \<^verbatim>\<open>a\<close>: the checks that follow
  the call of the superclass would raise "parameter must have a numeric minimum", and
  \<^verbatim>\<open>is_valid\<close> raises AttributeError before it reaches them.
\<close>

theorem is_valid_bad_minimum:
  "is_valid float_repr str_set (init_sampler bad_minimum_config) = Inl (AttributeError ''is_valid'')
   \<and> is_valid_checks float_repr str_set (init_sampler bad_minimum_config)
       = Inl (Exception ''parameter must have a numeric minimum'')"
proof -
  have "is_valid float_repr str_set (init_sampler bad_minimum_config)
          = Inl (AttributeError ''is_valid'')"
    by (simp add: is_valid_def super_getattr_def mro_def)
  moreover have "parameters (init_sampler bad_minimum_config) = [KStr ''X'']"
    by (simp add: parameters_def init_sampler_def bad_minimum_config_def keys_def)
  then have "check_variables str_set (init_sampler bad_minimum_config) = Inr ()"
    by (simp add: check_variables_def check_variables_strings_def
        check_variables_existence_def check_variables_for_dups_def)
  then have "is_valid_checks float_repr str_set (init_sampler bad_minimum_config)
          = Inl (Exception ''parameter must have a numeric minimum'')"
    by (simp add: is_valid_checks_def init_sampler_def bad_minimum_config_def getitem_def
        isnumeric_def log_and_raise_exception_def)
  ultimately show ?thesis by simp
qed

section \<open>Properties of check_validity\<close>

lemma messages_distinct:
  "''No 'type' entry found in sampler data '' @ a \<noteq> ''Sampler type '' @ b @ '' not found in schema''"
  "''No 'type' entry found in sampler data '' @ a \<noteq> ''Sampler data is invalid''"
  "''Sampler type '' @ b @ '' not found in schema'' \<noteq> ''Sampler data is invalid''"
  by simp_all

text \<open>
  C7. With the validation modelled from the spec, \<^verbatim>\<open>check_validity\<close> raises
  "No 'type' entry found in sampler data" followed by the text of the data when the
  data has no \<^verbatim>\<open>type\<close>; "Sampler type", the text of the data's own \<^verbatim>\<open>type\<close> and
  "not found in schema" when the type is not an allowed key; "Sampler data is invalid"
  when the schema rejects the data; and it returns otherwise. The next four equations
  are the handlers of the source alone, for a validation that raises ValueError,
  KeyError, ValidationError, or returns. The three messages differ from each other,
  whatever texts are put into them.
\<close>

theorem check_validity_messages:
  "check_validity (validate_sampler schema_ok) str_data float_repr s =
     (case cfg_type (data s) of
        None \<Rightarrow>
          Inl (Exception (''No 'type' entry found in sampler data '' @ str_data (data s)))
      | Some t \<Rightarrow>
          if t \<notin> set (map PStr ALLOWED_SAMPLING_KEYS)
          then Inl (Exception (''Sampler type '' @ py_str float_repr t @ '' not found in schema''))
          else if \<not> schema_ok (data s) then Inl (Exception ''Sampler data is invalid'')
          else Inr ())
   \<and> check_validity (\<lambda>d. Inl ValueError) str_data float_repr s =
       Inl (Exception (''No 'type' entry found in sampler data '' @ str_data (data s)))
   \<and> check_validity (\<lambda>d. Inl (KeyError k)) str_data float_repr s =
       (case cfg_type (data s) of
          None \<Rightarrow> Inl (KeyError (KStr ''type''))
        | Some t \<Rightarrow>
            Inl (Exception (''Sampler type '' @ py_str float_repr t @ '' not found in schema'')))
   \<and> check_validity (\<lambda>d. Inl ValidationError) str_data float_repr s =
       Inl (Exception ''Sampler data is invalid'')
   \<and> check_validity (\<lambda>d. Inr ()) str_data float_repr s = Inr ()
   \<and> ''No 'type' entry found in sampler data '' @ a \<noteq> ''Sampler type '' @ b @ '' not found in schema''
   \<and> ''No 'type' entry found in sampler data '' @ a \<noteq> ''Sampler data is invalid''
   \<and> ''Sampler type '' @ b @ '' not found in schema'' \<noteq> ''Sampler data is invalid''"
  by (simp add: check_validity_def validate_sampler_def log_and_raise_exception_def
      split: option.splits)

theorem check_validity_messages_witness:
  "check_validity (validate_sampler (\<lambda>d. cfg_parameters d \<noteq> None)) (\<lambda>d. ''{}'') (\<lambda>x. ''?'')
     (init_sampler (untyped_config None)) =
     Inl (Exception ''No 'type' entry found in sampler data {}'')
   \<and> check_validity (validate_sampler (\<lambda>d. cfg_parameters d \<noteq> None)) (\<lambda>d. ''{}'') (\<lambda>x. ''?'')
     (init_sampler (untyped_config (Some (PStr ''monte_carlo'')))) =
     Inl (Exception ''Sampler type monte_carlo not found in schema'')
   \<and> check_validity (validate_sampler (\<lambda>d. cfg_parameters d \<noteq> None)) (\<lambda>d. ''{}'') (\<lambda>x. ''?'')
     (init_sampler (untyped_config (Some (PStr ''random'')))) =
     Inl (Exception ''Sampler data is invalid'')
   \<and> check_validity (validate_sampler (\<lambda>d. cfg_parameters d \<noteq> None)) (\<lambda>d. ''{}'') (\<lambda>x. ''?'')
     (init_sampler sample_config) = Inr ()"
proof -
  let ?ok = "\<lambda>d. cfg_parameters d \<noteq> None"
  let ?sd = "\<lambda>d :: config. ''{}''"
  let ?fr = "\<lambda>x :: real. ''?''"
  note t = check_validity_messages[of ?ok ?sd ?fr, THEN conjunct1]
  have 1: "check_validity (validate_sampler ?ok) ?sd ?fr (init_sampler (untyped_config None)) =
     Inl (Exception ''No 'type' entry found in sampler data {}'')"
    unfolding t by (simp add: init_sampler_def untyped_config_def)
  have 2: "check_validity (validate_sampler ?ok) ?sd ?fr
       (init_sampler (untyped_config (Some (PStr ''monte_carlo'')))) =
     Inl (Exception ''Sampler type monte_carlo not found in schema'')"
    unfolding t by (simp add: init_sampler_def untyped_config_def ALLOWED_SAMPLING_KEYS_def)
  have 3: "check_validity (validate_sampler ?ok) ?sd ?fr
       (init_sampler (untyped_config (Some (PStr ''random'')))) =
     Inl (Exception ''Sampler data is invalid'')"
    unfolding t by (simp add: init_sampler_def untyped_config_def ALLOWED_SAMPLING_KEYS_def)
  have 4: "check_validity (validate_sampler ?ok) ?sd ?fr (init_sampler sample_config) = Inr ()"
    unfolding t by (simp add: init_sampler_def sample_config_def ALLOWED_SAMPLING_KEYS_def)
  from 1 2 3 4 show ?thesis by simp
qed

section \<open>Properties of get_custom_generator\<close>

text \<open>
  C3, with the keyword \<^verbatim>\<open>sample_dictionary\<close> supplied: when the lookup of
  \<^verbatim>\<open>SAMPLE_DICTIONARY\<close> in the environment raises ValueError, the entry point raises
  the error that the variable is required, and when the lookup returns an object without
  a value it raises AttributeError; the keyword's configuration is not used. When the
  lookup succeeds, the keyword's configuration is the one used: the result is that of a
  call without the keyword in an environment that holds this configuration.
\<close>

theorem get_custom_generator_lookup_first:
  "get_custom_generator M new_sampler (\<lambda>name. Raises ValueError)
     (\<lambda>k. if k = ''sample_dictionary'' then Some d else None)
   = Inl (Exception (''this pgen code requires SAMPLE_DICTIONARY '' @
                      ''to be defined in the yaml specification''))
   \<and> get_custom_generator M new_sampler (\<lambda>name. NoValue)
     (\<lambda>k. if k = ''sample_dictionary'' then Some d else None)
   = Inl (AttributeError ''value'')
   \<and> get_custom_generator M new_sampler (\<lambda>name. HasValue v)
     (\<lambda>k. if k = ''sample_dictionary'' then Some d else None)
   = get_custom_generator M new_sampler (\<lambda>name. HasValue d) (\<lambda>k. None)"
  by (simp add: get_custom_generator_def)

section \<open>Properties of the parameter names\<close>

lemma find_duplicates_loop_set:
  "\<forall>x. seen x \<noteq> Some 0 \<Longrightarrow> \<forall>x. (x \<in> set dupes) = (2 \<le> cnt seen x) \<Longrightarrow>
   set (find_duplicates_loop xs seen dupes) = {x. 2 \<le> cnt seen x + count_list xs x}"
proof (induction xs arbitrary: seen dupes)
  case Nil
  then show ?case by auto
next
  case (Cons a xs)
  show ?case
  proof (cases "seen a")
    case None
    have "set (find_duplicates_loop xs (seen(a \<mapsto> 1)) dupes)
          = {x. 2 \<le> cnt (seen(a \<mapsto> 1)) x + count_list xs x}"
      using Cons.prems None by (intro Cons.IH) (auto split: option.splits)
    with None show ?thesis by (auto split: option.splits if_splits)
  next
    case (Some n)
    with Cons.prems have n: "n \<noteq> 0" by metis
    let ?d = "if n = 1 then dupes @ [a] else dupes"
    have "set (find_duplicates_loop xs (seen(a \<mapsto> n + 1)) ?d)
          = {x. 2 \<le> cnt (seen(a \<mapsto> n + 1)) x + count_list xs x}"
      using Cons.prems Some n by (intro Cons.IH) (auto split: option.splits)
    with Some show ?thesis by (auto split: option.splits if_splits)
  qed
qed

lemma set_find_duplicates: "set (find_duplicates xs) = {x. 1 < count_list xs x}"
  using find_duplicates_loop_set[of Map.empty "[]" xs]
  by (auto simp: find_duplicates_def)

lemma parameters_eq:
  "parameters s =
     (case cfg_constants (data s) of None \<Rightarrow> [] | Some c \<Rightarrow> keys c) @
     (case cfg_parameters (data s) of None \<Rightarrow> [] | Some p \<Rightarrow> keys p)"
  by (simp add: parameters_def split: option.splits)

lemma parameters_only_eq:
  "parameters_constants_parameters_only s =
     (case cfg_constants (data s) of None \<Rightarrow> [] | Some c \<Rightarrow> keys c) @
     (case cfg_parameters (data s) of None \<Rightarrow> [] | Some p \<Rightarrow> keys p)"
  by (simp add: parameters_constants_parameters_only_def split: option.splits)

lemma check_strings_loop_ok: "list_all is_str ps \<Longrightarrow> check_strings_loop ps = Inr ()"
  by (induction ps) auto

lemma count_list_append: "count_list (xs @ ys) x = count_list xs x + count_list ys x"
  by (induction xs) auto

lemma count_list_pos: "x \<in> set xs \<Longrightarrow> 0 < count_list xs x"
  by (induction xs) auto

lemma count_list_distinct: "distinct xs \<Longrightarrow> count_list xs x = (if x \<in> set xs then 1 else 0)"
  by (induction xs) auto

lemma dups_raise:
  assumes c: "cfg_constants (data s) = Some c" and p: "cfg_parameters (data s) = Some p"
    and n: "name \<in> set (keys c)" "name \<in> set (keys p)"
  shows "check_variables_for_dups str_set s =
           Inl (Exception (dups_message (str_set {x. 1 < count_list (parameters s) x})))"
    and "1 < count_list (parameters s) name"
    and "parameters s \<noteq> []"
proof -
  have ps: "parameters s = keys c @ keys p" using c p by (simp add: parameters_eq)
  show 2: "1 < count_list (parameters s) name"
    using count_list_pos[OF n(1)] count_list_pos[OF n(2)] by (simp add: ps count_list_append)
  have "\<not> distinct (parameters s)" using n by (auto simp: ps)
  then have "length (parameters s) \<noteq> card (set (parameters s))"
    by (metis card_distinct)
  then show "check_variables_for_dups str_set s =
           Inl (Exception (dups_message (str_set {x. 1 < count_list (parameters s) x})))"
    by (simp add: check_variables_for_dups_def set_find_duplicates log_and_raise_exception_def)
  show "parameters s \<noteq> []" using n by (auto simp: ps)
qed

lemma dups_are_shared:
  assumes c: "cfg_constants (data s) = Some c" and p: "cfg_parameters (data s) = Some p"
    and d: "is_dict c" "is_dict p"
  shows "{x. 1 < count_list (parameters s) x} = set (keys c) \<inter> set (keys p)"
proof -
  have ps: "parameters s = keys c @ keys p" using c p by (simp add: parameters_eq)
  have "distinct (keys c)" "distinct (keys p)" using d by (simp_all add: is_dict_def keys_def)
  then show ?thesis
    by (auto simp: ps count_list_append count_list_distinct split: if_splits)
qed

text \<open>
  C5, as amended. The list of parameter names, in the random sampler and in the base
  sampler, is the keys of \<^verbatim>\<open>constants\<close> followed by the keys of \<^verbatim>\<open>parameters\<close>,
  where a missing block gives no names. When a name is a key of both blocks, the
  duplicate check raises the duplicate-naming error, whose message holds the text of the
  set of all names that occur more than once, the shared name among them; the shared
  checks as a whole raise it when all names are strings; and when both blocks are
  dictionaries that set is the set of the names that the two blocks share.
\<close>

theorem parameters_and_duplicates:
  "parameters s =
     (case cfg_constants (data s) of None \<Rightarrow> [] | Some c \<Rightarrow> keys c) @
     (case cfg_parameters (data s) of None \<Rightarrow> [] | Some p \<Rightarrow> keys p)
   \<and> parameters_constants_parameters_only s = parameters s
   \<and> (cfg_constants (data s) = Some c \<and> cfg_parameters (data s) = Some p \<and>
       name \<in> set (keys c) \<and> name \<in> set (keys p) \<longrightarrow>
         check_variables_for_dups str_set s =
           Inl (Exception (dups_message (str_set {x. 1 < count_list (parameters s) x})))
         \<and> name \<in> {x. 1 < count_list (parameters s) x}
         \<and> (list_all is_str (parameters s) \<longrightarrow>
              check_variables str_set s =
                Inl (Exception (dups_message (str_set {x. 1 < count_list (parameters s) x}))))
         \<and> (is_dict c \<and> is_dict p \<longrightarrow>
              {x. 1 < count_list (parameters s) x} = set (keys c) \<inter> set (keys p)))"
proof (intro conjI impI)
  show "parameters s =
     (case cfg_constants (data s) of None \<Rightarrow> [] | Some c \<Rightarrow> keys c) @
     (case cfg_parameters (data s) of None \<Rightarrow> [] | Some p \<Rightarrow> keys p)"
    by (rule parameters_eq)
  show "parameters_constants_parameters_only s = parameters s"
    by (simp add: parameters_eq parameters_only_eq)
next
  assume a: "cfg_constants (data s) = Some c \<and> cfg_parameters (data s) = Some p \<and>
       name \<in> set (keys c) \<and> name \<in> set (keys p)"
  then show "check_variables_for_dups str_set s =
           Inl (Exception (dups_message (str_set {x. 1 < count_list (parameters s) x})))"
    using dups_raise(1) by blast
  from a show "name \<in> {x. 1 < count_list (parameters s) x}"
    using dups_raise(2) by blast
  {
    assume "list_all is_str (parameters s)"
    then have "check_variables_strings s = Inr ()"
      by (simp add: check_variables_strings_def check_strings_loop_ok)
    moreover have "check_variables_existence s = Inr ()"
      using a dups_raise(3)[of s c p name] by (simp add: check_variables_existence_def)
    ultimately show "check_variables str_set s =
                Inl (Exception (dups_message (str_set {x. 1 < count_list (parameters s) x})))"
      using a dups_raise(1)[of s c p name str_set] by (simp add: check_variables_def)
  }
  {
    assume "is_dict c \<and> is_dict p"
    then show "{x. 1 < count_list (parameters s) x} = set (keys c) \<inter> set (keys p)"
      using a dups_are_shared by blast
  }
qed

theorem parameters_and_duplicates_witness:
  "parameters (init_sampler dup_config) = [KStr ''X1'', KStr ''X2'', KStr ''X2'', KStr ''X3'']
   \<and> cfg_constants dup_config = Some [(KStr ''X1'', PInt 20), (KStr ''X2'', PInt 3)]
   \<and> KStr ''X2'' \<in> set (keys [(KStr ''X1'', PInt 20), (KStr ''X2'', PInt 3)])
   \<and> list_all is_str (parameters (init_sampler dup_config))
   \<and> is_dict [(KStr ''X1'', PInt 20), (KStr ''X2'', PInt 3)]
   \<and> check_variables (\<lambda>S. if S = {KStr ''X2''} then ''{'X2'}'' else ''?'') (init_sampler dup_config) =
       Inl (Exception ''The following constants or parameters are defined more than once: {'X2'}'')"
proof -
  let ?c = "[(KStr ''X1'', PInt 20), (KStr ''X2'', PInt 3)]"
  let ?p = "[(KStr ''X2'', [(KStr ''min'', PInt 5), (KStr ''max'', PInt 10)]),
              (KStr ''X3'', [(KStr ''min'', PInt 5), (KStr ''max'', PInt 10)])]"
  let ?str = "\<lambda>S. if S = {KStr ''X2''} then ''{'X2'}'' else ''?''"
  have h: "cfg_constants (data (init_sampler dup_config)) = Some ?c \<and>
        cfg_parameters (data (init_sampler dup_config)) = Some ?p \<and>
        KStr ''X2'' \<in> set (keys ?c) \<and> KStr ''X2'' \<in> set (keys ?p)"
    by (simp add: init_sampler_def dup_config_def keys_def)
  have ps: "parameters (init_sampler dup_config) = [KStr ''X1'', KStr ''X2'', KStr ''X2'', KStr ''X3'']"
    by (simp add: parameters_def init_sampler_def dup_config_def keys_def)
  have st: "list_all is_str (parameters (init_sampler dup_config))" by (simp add: ps)
  have d: "is_dict ?c \<and> is_dict ?p" by (simp add: is_dict_def)
  from parameters_and_duplicates[of "init_sampler dup_config" ?c ?p "KStr ''X2''" ?str] h st d
  have "check_variables ?str (init_sampler dup_config) =
          Inl (Exception (dups_message (?str {x. 1 < count_list (parameters (init_sampler dup_config)) x})))"
    and "{x. 1 < count_list (parameters (init_sampler dup_config)) x} = set (keys ?c) \<inter> set (keys ?p)"
    by blast+
  moreover have "set (keys ?c) \<inter> set (keys ?p) = {KStr ''X2''}" by (auto simp: keys_def)
  ultimately have "check_variables ?str (init_sampler dup_config) =
       Inl (Exception ''The following constants or parameters are defined more than once: {'X2'}'')"
    by (simp add: dups_message_def)
  with h ps st d show ?thesis by (simp add: dup_config_def)
qed

text \<open>
  With a key that is not a string, the string check comes first and raises its own
  error, although \<^verbatim>\<open>X2\<close> is a key of both blocks.
\<close>

theorem duplicate_after_string_check_counterexample:
  "KStr ''X2'' \<in> set (keys [(KInt 1, PInt 20), (KStr ''X2'', PInt 3)])
   \<and> KStr ''X2'' \<in> set (keys [(KStr ''X2'', [(KStr ''min'', PInt 5), (KStr ''max'', PInt 10)])])
   \<and> cfg_constants int_key_config = Some [(KInt 1, PInt 20), (KStr ''X2'', PInt 3)]
   \<and> cfg_parameters int_key_config =
        Some [(KStr ''X2'', [(KStr ''min'', PInt 5), (KStr ''max'', PInt 10)])]
   \<and> check_variables (\<lambda>S. ''?'') (init_sampler int_key_config) =
        Inl (Exception ''constants and parameters must be strings'')"
proof -
  have "parameters (init_sampler int_key_config) = [KInt 1, KStr ''X2'', KStr ''X2'']"
    by (simp add: parameters_def init_sampler_def int_key_config_def keys_def)
  then have "check_variables (\<lambda>S. ''?'') (init_sampler int_key_config) =
        Inl (Exception ''constants and parameters must be strings'')"
    by (simp add: check_variables_def check_variables_strings_def log_and_raise_exception_def)
  then show ?thesis by (simp add: int_key_config_def keys_def)
qed

section \<open>Properties of the parameter block\<close>

lemma dict_set_new: "k \<notin> set (keys d) \<Longrightarrow> dict_set d k v = d @ [(k, v)]"
  by (induction d) (auto simp: keys_def)

lemma append_value_notin: "k \<notin> set (keys b) \<Longrightarrow> append_value b k v = b"
  by (induction b) (auto simp: keys_def append_value_def)

lemma keys_append_value: "keys (append_value b k v) = keys b"
  by (induction b) (auto simp: keys_def append_value_def)

lemma block_add_items_fresh:
  "distinct (keys its) \<Longrightarrow> set (keys b) \<inter> set (keys its) = {} \<Longrightarrow>
   block_add_items b its = b @ map (\<lambda>(k, v). (k, new_entry k [v])) its"
proof (induction its arbitrary: b)
  case Nil
  then show ?case by simp
next
  case (Cons it its)
  obtain k v where it: "it = (k, v)" by (cases it)
  from Cons.prems it have kb: "k \<notin> set (keys b)" and kits: "k \<notin> set (keys its)"
    and d: "distinct (keys its)" and disj: "set (keys b) \<inter> set (keys its) = {}"
    by (auto simp: keys_def)
  let ?b1 = "b @ [(k, new_entry k [v])]"
  have step: "append_value (dict_set b k (new_entry k [])) k v = ?b1"
    using kb by (simp add: dict_set_new append_value_def new_entry_def)
      (metis append_value_def append_value_notin)
  have "set (keys ?b1) \<inter> set (keys its) = {}"
    using disj kits by (auto simp: keys_def)
  from Cons.IH[OF d this] show ?case
    using kb it step by simp
qed

lemma block_add_items_known:
  "distinct (keys its) \<Longrightarrow> set (keys its) \<subseteq> set (keys b) \<Longrightarrow>
   block_add_items b its =
     map (\<lambda>(k, e). (k, case map_of its k of None \<Rightarrow> e
                        | Some v \<Rightarrow> e\<lparr>entry_values := entry_values e @ [v]\<rparr>)) b"
proof (induction its arbitrary: b)
  case Nil
  then show ?case by simp
next
  case (Cons it its)
  obtain k v where it: "it = (k, v)" by (cases it)
  from Cons.prems it have kb: "k \<in> set (keys b)" and kits: "k \<notin> set (keys its)"
    and d: "distinct (keys its)" and sub: "set (keys its) \<subseteq> set (keys b)"
    by (auto simp: keys_def)
  have "set (keys its) \<subseteq> set (keys (append_value b k v))"
    using sub by (simp add: keys_append_value)
  from Cons.IH[OF d this] have
    "block_add_items (append_value b k v) its =
       map (\<lambda>(k, e). (k, case map_of its k of None \<Rightarrow> e
                        | Some v \<Rightarrow> e\<lparr>entry_values := entry_values e @ [v]\<rparr>)) (append_value b k v)" .
  moreover have "map_of its k = None" using kits by (simp add: keys_def map_of_eq_None_iff)
  ultimately show ?case using kb it
    by (auto simp: append_value_def)
qed

lemma map_of_keys: "k \<in> set (keys s) \<Longrightarrow> \<exists>v. map_of s k = Some v"
  by (induction s) (auto simp: keys_def)

lemma block_of_first: "is_dict s \<Longrightarrow> block_add_items [] s = block_of (keys s) [s]"
proof -
  assume d: "is_dict s"
  then have "block_add_items [] s = [] @ map (\<lambda>(k, v). (k, new_entry k [v])) s"
    by (intro block_add_items_fresh) (auto simp: is_dict_def keys_def)
  moreover have "map (\<lambda>(k, v). (k, new_entry k [v])) s = block_of (keys s) [s]"
    using d by (auto simp: block_of_def keys_def is_dict_def)
  ultimately show ?thesis by simp
qed

lemma block_of_next:
  assumes "is_dict s" "set (keys s) = set ks"
  shows "block_add_items (block_of ks ss) s = block_of ks (ss @ [s])"
proof -
  have k: "keys (block_of ks ss) = ks" by (simp add: block_of_def keys_def comp_def)
  have "block_add_items (block_of ks ss) s =
     map (\<lambda>(k, e). (k, case map_of s k of None \<Rightarrow> e
                        | Some v \<Rightarrow> e\<lparr>entry_values := entry_values e @ [v]\<rparr>)) (block_of ks ss)"
    using assms k by (intro block_add_items_known) (auto simp: is_dict_def keys_def)
  also have "\<dots> = block_of ks (ss @ [s])"
    using assms(2) map_of_keys[of _ s] by (fastforce simp: block_of_def new_entry_def)
  finally show ?thesis .
qed

lemma fold_block_of:
  "\<forall>s \<in> set ss. is_dict s \<and> set (keys s) = set ks \<Longrightarrow>
   fold (\<lambda>sample b. block_add_items b sample) ss (block_of ks ss0) = block_of ks (ss0 @ ss)"
  by (induction ss arbitrary: ss0) (auto simp: block_of_next)

lemma build_parameter_block_eq:
  assumes "samples \<noteq> []" "same_keys samples"
  shows "build_parameter_block samples = block_of (keys (hd samples)) samples"
proof -
  obtain s ss where s: "samples = s # ss" using assms(1) by (cases samples) auto
  from assms(2) s have d: "is_dict s"
    and r: "\<forall>t \<in> set ss. is_dict t \<and> set (keys t) = set (keys s)"
    by (auto simp: same_keys_def)
  show ?thesis using fold_block_of[OF r, of "[s]"] d
    by (simp add: build_parameter_block_def s block_of_first)
qed

lemma column_values_eq:
  "\<forall>s \<in> set ss. k \<in> set (keys s) \<Longrightarrow>
   column_values ss k = Inr (map (\<lambda>s. the (map_of s k)) ss)"
proof (induction ss)
  case Nil
  then show ?case by simp
next
  case (Cons s ss)
  then obtain v where "map_of s k = Some v" using map_of_keys[of k s] by auto
  with Cons show ?case by (simp add: getitem_def)
qed

lemma convert_keys_eq:
  "distinct ks \<Longrightarrow> set ks \<inter> set (keys params) = {} \<Longrightarrow>
   \<forall>s \<in> set ss. set ks \<subseteq> set (keys s) \<Longrightarrow>
   convert_keys ss ks params = Inr (params @ block_of ks ss)"
proof (induction ks arbitrary: params)
  case Nil
  then show ?case by (simp add: block_of_def)
next
  case (Cons k ks)
  let ?vals = "map (\<lambda>s. the (map_of s k)) ss"
  have cv: "column_values ss k = Inr ?vals"
    using Cons.prems(3) by (intro column_values_eq) auto
  have kp: "k \<notin> set (keys params)" using Cons.prems(2) by auto
  let ?p1 = "params @ [(k, new_entry k ?vals)]"
  have "convert_keys ss ks ?p1 = Inr (?p1 @ block_of ks ss)"
    using Cons.prems by (intro Cons.IH) (auto simp: keys_def)
  then show ?case using cv kp by (simp add: dict_set_new block_of_def)
qed

lemma convert_eq:
  assumes "samples \<noteq> []" "same_keys samples"
  shows "convert_dict_to_maestro_params samples = Inr (block_of (keys (hd samples)) samples)"
proof -
  obtain s ss where s: "samples = s # ss" using assms(1) by (cases samples) auto
  from assms(2) s have d: "distinct (keys s)"
    and r: "\<forall>t \<in> set samples. set (keys s) \<subseteq> set (keys t)"
    by (auto simp: same_keys_def is_dict_def keys_def)
  from convert_keys_eq[OF d _ r, of "[]"] show ?thesis
    by (simp add: convert_dict_to_maestro_params_def s keys_def)
qed

text \<open>
  C8. For a list of N samples, N at least 1, that are dictionaries with the same set of
  K keys, the parameter block (the property of the sampler, computed from the samples
  that \<^verbatim>\<open>get_samples\<close> returns, and likewise \<^verbatim>\<open>_convert_dict_to_maestro_params\<close>)
  has one entry per key, in the order of the keys of the first sample, K entries in all;
  the values of each entry are N values, the n-th being the value of the key in the n-th
  sample, and its label is the text of the key followed by \<^verbatim>\<open>.%%\<close>.
\<close>

theorem parameter_block_entries:
  assumes "samples \<noteq> []" and "same_keys samples"
    and "priv_parameter_block s = None"
    and "get_samples_of (s\<lparr>priv_parameter_block := Some []\<rparr>) = Inr (samples, s1)"
  shows "\<exists>b. parameter_block get_samples_of s = Inr (b, s1\<lparr>priv_parameter_block := Some b\<rparr>)
     \<and> build_parameter_block samples = b
     \<and> convert_dict_to_maestro_params samples = Inr b
     \<and> keys b = keys (hd samples)
     \<and> length b = card (set (keys (hd samples)))
     \<and> (\<forall>i < length b.
           entry_label (snd (b ! i)) = str_key (fst (b ! i)) @ ''.%%''
           \<and> length (entry_values (snd (b ! i))) = length samples
           \<and> (\<forall>n < length samples.
                 map_of (samples ! n) (fst (b ! i)) = Some (entry_values (snd (b ! i)) ! n)))"
proof -
  let ?ks = "keys (hd samples)"
  let ?b = "block_of ?ks samples"
  have 1: "build_parameter_block samples = ?b"
    using assms(1,2) by (rule build_parameter_block_eq)
  have 2: "convert_dict_to_maestro_params samples = Inr ?b"
    using assms(1,2) by (rule convert_eq)
  have 3: "parameter_block get_samples_of s = Inr (?b, s1\<lparr>priv_parameter_block := Some ?b\<rparr>)"
    using assms(3,4) 1 by (simp add: parameter_block_def Let_def)
  have 4: "keys ?b = ?ks" by (simp add: block_of_def keys_def comp_def)
  have "hd samples \<in> set samples" using assms(1) by simp
  then have "distinct ?ks" using assms(2) by (auto simp: same_keys_def is_dict_def keys_def)
  then have 5: "length ?b = card (set ?ks)"
    by (simp add: block_of_def distinct_card)
  have 6: "entry_label (snd (?b ! i)) = str_key (fst (?b ! i)) @ ''.%%''
           \<and> length (entry_values (snd (?b ! i))) = length samples
           \<and> (\<forall>n < length samples.
                 map_of (samples ! n) (fst (?b ! i)) = Some (entry_values (snd (?b ! i)) ! n))"
    if i: "i < length ?b" for i
  proof -
    from i have il: "i < length ?ks" by (simp add: block_of_def)
    have bi: "?b ! i = (?ks ! i, new_entry (?ks ! i) (map (\<lambda>s. the (map_of s (?ks ! i))) samples))"
      using il by (simp add: block_of_def)
    have "map_of (samples ! n) (?ks ! i) = Some (the (map_of (samples ! n) (?ks ! i)))"
      if n: "n < length samples" for n
    proof -
      have "samples ! n \<in> set samples" using n by simp
      then have "set (keys (samples ! n)) = set ?ks" using assms(2) by (simp add: same_keys_def)
      then have "?ks ! i \<in> set (keys (samples ! n))" using il by simp
      from map_of_keys[OF this] show ?thesis by auto
    qed
    then show ?thesis by (simp add: bi new_entry_def)
  qed
  show ?thesis
    by (rule exI[of _ ?b]) (use 1 2 3 4 5 6 in blast)
qed

theorem parameter_block_entries_witness:
  "two_samples \<noteq> [] \<and> same_keys two_samples
   \<and> priv_parameter_block (init_sampler dup_config) = None
   \<and> parameter_block (\<lambda>s. Inr (two_samples, s)) (init_sampler dup_config) =
       Inr (two_block, (init_sampler dup_config)\<lparr>priv_parameter_block := Some two_block\<rparr>)
   \<and> convert_dict_to_maestro_params two_samples = Inr two_block
   \<and> length two_block = 2"
proof -
  let ?s = "init_sampler dup_config"
  let ?gs = "\<lambda>s. Inr (two_samples, s) :: error + sample list \<times> sampler"
  have h1: "two_samples \<noteq> []" by (simp add: two_samples_def)
  have h2: "same_keys two_samples"
    by (auto simp: same_keys_def two_samples_def is_dict_def keys_def)
  have h3: "priv_parameter_block ?s = None" by (simp add: init_sampler_def)
  have h4: "?gs (?s\<lparr>priv_parameter_block := Some []\<rparr>)
              = Inr (two_samples, ?s\<lparr>priv_parameter_block := Some []\<rparr>)" by simp
  from parameter_block_entries[of two_samples ?s ?gs "?s\<lparr>priv_parameter_block := Some []\<rparr>"]
    h1 h2 h3 h4
  obtain b where b: "parameter_block ?gs ?s =
        Inr (b, ?s\<lparr>priv_parameter_block := Some [], priv_parameter_block := Some b\<rparr>)"
    "build_parameter_block two_samples = b" "convert_dict_to_maestro_params two_samples = Inr b"
    by blast
  have "build_parameter_block two_samples = two_block"
    by (simp add: build_parameter_block_def two_samples_def two_block_def keys_def
        append_value_def new_entry_def)
  with b have "b = two_block" by simp
  with b h1 h2 h3 show ?thesis by (simp add: two_block_def)
qed

section \<open>Properties of the floats\<close>

lemma rhe_int: "round_half_even (of_int n) = n"
  by (simp add: round_half_even_def)

lemma rhe_cases: "round_half_even y = \<lfloor>y\<rfloor> \<or> round_half_even y = \<lfloor>y\<rfloor> + 1"
  by (simp add: round_half_even_def Let_def)

lemma rhe_lower: "y - 1 / 2 \<le> of_int (round_half_even y)"
  unfolding round_half_even_def Let_def by (auto; linarith)

lemma rhe_upper: "of_int (round_half_even y) \<le> y + 1 / 2"
  unfolding round_half_even_def Let_def by (auto; linarith)

lemma rhe_mono: "x \<le> y \<Longrightarrow> round_half_even x \<le> round_half_even y"
proof -
  assume xy: "x \<le> y"
  then have f: "\<lfloor>x\<rfloor> \<le> \<lfloor>y\<rfloor>" by (rule floor_mono)
  show ?thesis
  proof (cases "\<lfloor>x\<rfloor> = \<lfloor>y\<rfloor>")
    case True
    then show ?thesis using xy unfolding round_half_even_def Let_def by auto
  next
    case False
    with f have "\<lfloor>x\<rfloor> + 1 \<le> \<lfloor>y\<rfloor>" by simp
    moreover have "round_half_even x \<le> \<lfloor>x\<rfloor> + 1" using rhe_cases[of x] by auto
    moreover have "\<lfloor>y\<rfloor> \<le> round_half_even y" using rhe_cases[of y] by auto
    ultimately show ?thesis by linarith
  qed
qed

lemma rhe_below_half: "of_int n \<le> y \<Longrightarrow> y < of_int n + 1 / 2 \<Longrightarrow> round_half_even y = n"
proof -
  assume a: "of_int n \<le> y" "y < of_int n + 1 / 2"
  then have "\<lfloor>y\<rfloor> = n" by linarith
  then show ?thesis using a by (simp add: round_half_even_def Let_def)
qed

lemma rhe_nonneg: "0 \<le> y \<Longrightarrow> 0 \<le> round_half_even y"
  using rhe_mono[of 0 y] rhe_int[of 0] by simp


lemma p2_pos: "0 < (2::real) powr of_int e"
  by simp

lemma p2_add: "(2::real) powr of_int (a + b) = 2 powr of_int a * 2 powr of_int b"
  by (simp add: powr_add)

lemma p2_mono: "a \<le> b \<Longrightarrow> (2::real) powr of_int a \<le> 2 powr of_int b"
  by simp

lemma p2_nat: "0 \<le> e \<Longrightarrow> (2::real) powr of_int e = of_int (2 ^ nat e)"
  by (simp add: powr_real_of_int)

lemma bexp_bounds:
  assumes "0 < x"
  shows "2 powr of_int \<lfloor>log 2 x\<rfloor> \<le> x" and "x < 2 powr of_int (\<lfloor>log 2 x\<rfloor> + 1)"
  using floor_log_eq_powr_iff[of x 2 "\<lfloor>log 2 x\<rfloor>"] assms by simp_all

lemma bexp_unique:
  "0 < x \<Longrightarrow> 2 powr of_int k \<le> x \<Longrightarrow> x < 2 powr of_int (k + 1) \<Longrightarrow> \<lfloor>log 2 x\<rfloor> = k"
  using floor_log_eq_powr_iff[of x 2 k] by simp

lemma bexp_mono: "0 < x \<Longrightarrow> x \<le> y \<Longrightarrow> \<lfloor>log 2 x\<rfloor> \<le> \<lfloor>log 2 y\<rfloor>"
  by (intro floor_mono) simp

lemma ulp_mono: "0 < x \<Longrightarrow> x \<le> y \<Longrightarrow> ulp_exponent x \<le> ulp_exponent y"
  using bexp_mono[of x y] by (simp add: ulp_exponent_def)

lemma ulp_ge: "- 1074 \<le> ulp_exponent x"
  by (simp add: ulp_exponent_def)

text \<open>The quotient by the unit in the last place is below 2^53.\<close>

lemma quotient_less:
  assumes "0 < x"
  shows "x / 2 powr of_int (ulp_exponent x) < 2 ^ 53"
proof -
  let ?k = "\<lfloor>log 2 x\<rfloor>"
  have "?k + 1 \<le> ulp_exponent x + 53" by (simp add: ulp_exponent_def)
  then have "(2::real) powr of_int (?k + 1) \<le> 2 powr of_int (ulp_exponent x + 53)"
    by (rule p2_mono)
  with bexp_bounds(2)[OF assms] have "x < 2 powr of_int (ulp_exponent x + 53)" by linarith
  also have "\<dots> = 2 powr of_int (ulp_exponent x) * 2 ^ 53"
    by (simp add: powr_add)
  finally show ?thesis by (simp add: pos_divide_less_eq mult.commute)
qed

text \<open>Above the subnormal numbers the quotient is at least 2^52.\<close>

lemma quotient_ge:
  assumes "0 < x" and "- 1074 < ulp_exponent x"
  shows "2 ^ 52 \<le> x / 2 powr of_int (ulp_exponent x)"
proof -
  let ?k = "\<lfloor>log 2 x\<rfloor>"
  from assms(2) have e: "ulp_exponent x = ?k - 52" by (simp add: ulp_exponent_def max_def split: if_splits)
  have "(2::real) powr of_int ?k = 2 powr of_int (ulp_exponent x + 52)" using e by simp
  also have "\<dots> = 2 powr of_int (ulp_exponent x) * 2 ^ 52" by (simp add: powr_add)
  finally have "2 powr of_int (ulp_exponent x) * 2 ^ 52 \<le> x" using bexp_bounds(1)[OF assms(1)] by simp
  then show ?thesis by (simp add: pos_le_divide_eq mult.commute)
qed

lemma round_float_pos:
  "0 < x \<Longrightarrow> round_float x =
     of_int (round_half_even (x / 2 powr of_int (ulp_exponent x))) * 2 powr of_int (ulp_exponent x)"
  by (simp add: round_float_def Let_def)

lemma round_float_zero: "round_float 0 = 0"
  by (simp add: round_float_def)

lemma round_float_minus: "round_float (- x) = - round_float x"
  by (simp add: round_float_def Let_def sgn_minus)

lemma round_float_nonneg: "0 \<le> x \<Longrightarrow> 0 \<le> round_float x"
proof -
  assume "0 \<le> x"
  then have "0 \<le> x / 2 powr of_int (ulp_exponent x)" by simp
  from rhe_nonneg[OF this] show ?thesis using \<open>0 \<le> x\<close>
    by (cases "x = 0") (simp_all add: round_float_zero round_float_pos)
qed

lemma round_float_mono_pos:
  assumes "0 < x" and "x \<le> y"
  shows "round_float x \<le> round_float y"
proof -
  let ?ex = "ulp_exponent x" and ?ey = "ulp_exponent y"
  have y: "0 < y" using assms by simp
  have le: "?ex \<le> ?ey" using assms by (rule ulp_mono)
  show ?thesis
  proof (cases "?ex = ?ey")
    case True
    have "x / 2 powr of_int ?ey \<le> y / 2 powr of_int ?ey"
      using assms(2) by (simp add: divide_right_mono)
    from rhe_mono[OF this] show ?thesis
      using True by (simp add: round_float_pos assms(1) y)
  next
    case False
    with le have lt: "?ex + 1 \<le> ?ey" by simp
    with ulp_ge[of x] have ny: "- 1074 < ?ey" by linarith
    have "round_half_even (x / 2 powr of_int ?ex) \<le> round_half_even (2 ^ 53)"
      using quotient_less[OF assms(1)] by (intro rhe_mono) simp
    also have "round_half_even (2 ^ 53) = 2 ^ 53" using rhe_int[of "2 ^ 53"] by simp
    finally have "real_of_int (round_half_even (x / 2 powr of_int ?ex)) \<le> real_of_int (2 ^ 53)"
      by (simp only: of_int_le_iff)
    then have "real_of_int (round_half_even (x / 2 powr of_int ?ex)) \<le> 2 ^ 53"
      by simp
    then have "round_float x \<le> 2 ^ 53 * 2 powr of_int ?ex"
      by (simp add: round_float_pos assms(1))
    also have "\<dots> = 2 ^ 52 * 2 powr of_int (?ex + 1)" by (simp add: powr_add)
    also have "\<dots> \<le> 2 ^ 52 * 2 powr of_int ?ey" using p2_mono[OF lt] by simp
    also have "\<dots> \<le> round_float y"
    proof -
      have "round_half_even (2 ^ 52) \<le> round_half_even (y / 2 powr of_int ?ey)"
        using quotient_ge[OF y ny] by (intro rhe_mono)
      moreover have "round_half_even (2 ^ 52) = 2 ^ 52" using rhe_int[of "2 ^ 52"] by simp
      ultimately have "real_of_int (2 ^ 52) \<le> real_of_int (round_half_even (y / 2 powr of_int ?ey))"
        by (simp only: of_int_le_iff)
      then have "2 ^ 52 \<le> real_of_int (round_half_even (y / 2 powr of_int ?ey))"
        by simp
      then show ?thesis by (simp add: round_float_pos y)
    qed
    finally show ?thesis .
  qed
qed

lemma round_float_mono: "x \<le> y \<Longrightarrow> round_float x \<le> round_float y"
proof -
  assume xy: "x \<le> y"
  consider "0 < x" | "x \<le> 0" "0 \<le> y" | "y < 0" by linarith
  then show ?thesis
  proof cases
    case 1
    then show ?thesis using xy by (rule round_float_mono_pos)
  next
    case 2
    have "round_float x \<le> 0"
      using round_float_nonneg[of "- x"] 2(1) by (simp add: round_float_minus)
    also have "0 \<le> round_float y" using 2(2) by (rule round_float_nonneg)
    finally show ?thesis .
  next
    case 3
    have "round_float (- y) \<le> round_float (- x)"
      using 3 xy by (intro round_float_mono_pos) simp_all
    then show ?thesis by (simp add: round_float_minus)
  qed
qed


lemma fixed_of_quotient:
  assumes "0 < x" and "x / 2 powr of_int (ulp_exponent x) = of_int n"
  shows "round_float x = x"
proof -
  have "round_float x = of_int n * 2 powr of_int (ulp_exponent x)"
    using assms by (simp add: round_float_pos rhe_int)
  also have "\<dots> = x" using assms(2)[symmetric] by simp
  finally show ?thesis .
qed

lemma float_fixed_pos:
  assumes "0 < m" and "m < 2 ^ 53" and "- 1074 \<le> e"
  shows "round_float (of_int m * 2 powr of_int e) = of_int m * 2 powr of_int e"
proof -
  let ?x = "real_of_int m * 2 powr of_int e"
  let ?k = "\<lfloor>log 2 ?x\<rfloor>"
  have x: "0 < ?x" using assms(1) by simp
  have "real_of_int m < real_of_int (2 ^ 53)" using assms(2) by (simp only: of_int_less_iff)
  then have "?x < 2 ^ 53 * 2 powr of_int e" by simp
  also have "\<dots> = 2 powr of_int (e + 53)" by (simp add: powr_add)
  finally have "2 powr of_int ?k < (2::real) powr of_int (e + 53)"
    using bexp_bounds(1)[OF x] by linarith
  then have "?k < e + 53" by simp
  then have le: "ulp_exponent ?x \<le> e" using assms(3) by (simp add: ulp_exponent_def)
  define u where "u = ulp_exponent ?x"
  define c where "c = e - u"
  have c: "0 \<le> c" "e = u + c" using le by (simp_all add: c_def u_def)
  have "(2::real) powr of_int e = 2 powr of_int u * 2 powr of_int c"
    unfolding c(2) by (rule p2_add)
  then have "?x / 2 powr of_int u = of_int m * 2 powr of_int c"
    by simp
  also have "\<dots> = of_int (m * 2 ^ nat c)" using p2_nat[OF c(1)] by simp
  finally have "?x / 2 powr of_int (ulp_exponent ?x) = of_int (m * 2 ^ nat c)"
    unfolding u_def .
  with x show ?thesis by (rule fixed_of_quotient)
qed

lemma float_fixed:
  assumes "\<bar>m\<bar> \<le> 2 ^ 53" and "- 1074 \<le> e"
  shows "round_float (of_int m * 2 powr of_int e) = of_int m * 2 powr of_int e"
proof -
  have pos: "round_float (of_int n * 2 powr of_int e) = of_int n * 2 powr of_int e"
    if n: "0 < n" "n \<le> 2 ^ 53" for n
  proof (cases "n < 2 ^ 53")
    case True
    with n(1) assms(2) show ?thesis by (intro float_fixed_pos)
  next
    case False
    with n(2) have n53: "n = 2 ^ 53" by simp
    have "real_of_int n * 2 powr of_int e = of_int (2 ^ 52) * 2 powr of_int (e + 1)"
      by (simp add: n53 powr_add)
    moreover have "round_float (of_int (2 ^ 52) * 2 powr of_int (e + 1)) =
        of_int (2 ^ 52) * 2 powr of_int (e + 1)"
      using assms(2) by (intro float_fixed_pos) simp_all
    ultimately show ?thesis by simp
  qed
  consider "0 < m" | "m = 0" | "m < 0" by linarith
  then show ?thesis
  proof cases
    case 1
    with assms(1) show ?thesis by (intro pos) simp_all
  next
    case 2
    then show ?thesis by (simp add: round_float_zero)
  next
    case 3
    with assms(1) have "round_float (of_int (- m) * 2 powr of_int e) = of_int (- m) * 2 powr of_int e"
      by (intro pos) simp_all
    then show ?thesis using round_float_minus[of "of_int m * 2 powr of_int e"] by simp
  qed
qed

lemma float_of_int_exact: "\<bar>i\<bar> \<le> 2 ^ 53 \<Longrightarrow> round_float (of_int i) = of_int i"
  using float_fixed[of i 0] by simp

text \<open>A positive number that rounding fixes is an integral multiple of its unit.\<close>

lemma fixed_quotient:
  assumes "0 < x" and "round_float x = x"
  shows "x / 2 powr of_int (ulp_exponent x) =
           of_int (round_half_even (x / 2 powr of_int (ulp_exponent x)))"
proof -
  define u where "u = (2::real) powr of_int (ulp_exponent x)"
  define m where "m = round_half_even (x / u)"
  have u: "0 < u" by (simp add: u_def)
  from assms have "of_int m * u = x"
    by (simp add: round_float_pos u_def m_def)
  then have "x / u = of_int m" using u by (simp add: field_simps)
  then show ?thesis by (simp add: u_def m_def)
qed

text \<open>Every float is an integral multiple of the least subnormal number.\<close>

lemma fixed_on_grid:
  assumes "round_float x = x"
  shows "\<exists>n. x = of_int n * 2 powr (- 1074)"
proof -
  have pos: "\<exists>n. y = of_int n * 2 powr (- 1074)" if y: "0 < y" "round_float y = y" for y
  proof -
    define c where "c = ulp_exponent y + 1074"
    have c: "0 \<le> c" "ulp_exponent y = c + (- 1074)" using ulp_ge[of y] by (simp_all add: c_def)
    define m where "m = round_half_even (y / 2 powr of_int (ulp_exponent y))"
    have 1: "y = of_int m * 2 powr of_int (ulp_exponent y)"
      using y by (simp add: round_float_pos m_def)
    have 2: "2 powr real_of_int (ulp_exponent y) = 2 powr of_int c * 2 powr (- 1074)"
      using p2_add[of c "- 1074"] c(2) by simp
    have 3: "2 powr real_of_int c = of_int (2 ^ nat c)" using c(1) by (rule p2_nat)
    have "y = of_int (m * 2 ^ nat c) * 2 powr (- 1074)"
      unfolding of_int_mult 3[symmetric] using 1 2 by simp
    then show ?thesis by blast
  qed
  consider "0 < x" | "x = 0" | "x < 0" by linarith
  then show ?thesis
  proof cases
    case 1
    with assms show ?thesis by (intro pos)
  next
    case 2
    then show ?thesis by (intro exI[of _ 0]) simp
  next
    case 3
    with assms have "\<exists>n. - x = of_int n * 2 powr (- 1074)"
      by (intro pos) (simp_all add: round_float_minus)
    then obtain n where "- x = of_int n * 2 powr (- 1074)" by blast
    then have "x = of_int (- n) * 2 powr (- 1074)" by simp
    then show ?thesis by blast
  qed
qed

lemma round_float_idem: "round_float (round_float x) = round_float x"
proof -
  have pos: "round_float (round_float y) = round_float y" if y: "0 < y" for y
  proof -
    let ?m = "round_half_even (y / 2 powr of_int (ulp_exponent y))"
    have "?m \<le> round_half_even (2 ^ 53)"
      using quotient_less[OF y] by (intro rhe_mono) simp
    also have "round_half_even (2 ^ 53) = 2 ^ 53" using rhe_int[of "2 ^ 53"] by simp
    finally have up: "?m \<le> 2 ^ 53" .
    have "0 \<le> ?m" using y by (intro rhe_nonneg) simp
    with up have "\<bar>?m\<bar> \<le> 2 ^ 53" by simp
    from float_fixed[OF this ulp_ge[of y]] show ?thesis by (simp add: round_float_pos y)
  qed
  consider "0 < x" | "x = 0" | "x < 0" by linarith
  then show ?thesis
  proof cases
    case 1
    then show ?thesis by (rule pos)
  next
    case 2
    then show ?thesis by (simp add: round_float_zero)
  next
    case 3
    then have "round_float (round_float (- x)) = round_float (- x)" by (intro pos) simp
    then show ?thesis by (simp add: round_float_minus)
  qed
qed


text \<open>Below the midpoint above a float of full precision, rounding does not pass that float.\<close>

lemma round_below_midpoint:
  assumes "2 ^ 52 \<le> M" and "M < 2 ^ 53" and "- 1074 \<le> e"
    and "x < (of_int M + 1 / 2) * 2 powr of_int e"
  shows "round_float x \<le> of_int M * 2 powr of_int e"
proof (cases "x \<le> of_int M * 2 powr of_int e")
  case True
  have "\<bar>M\<bar> \<le> 2 ^ 53" using assms(1,2) by simp
  from float_fixed[OF this assms(3)] round_float_mono[OF True] show ?thesis by simp
next
  case False
  define u where "u = (2::real) powr of_int e"
  have u: "0 < u" by (simp add: u_def)
  from False have lt: "of_int M * u < x" by (simp add: u_def)
  have M1: "(2::real) ^ 52 \<le> of_int M"
  proof -
    have "real_of_int (2 ^ 52) \<le> of_int M" using assms(1) by (simp only: of_int_le_iff)
    then show ?thesis by simp
  qed
  have M2: "real_of_int M + 1 \<le> 2 ^ 53"
  proof -
    have "M + 1 \<le> 2 ^ 53" using assms(2) by simp
    then have "real_of_int (M + 1) \<le> of_int (2 ^ 53)" by (simp only: of_int_le_iff)
    then show ?thesis by simp
  qed
  have x: "0 < x"
  proof -
    have "0 \<le> of_int M * u" using M1 u by simp
    with lt show ?thesis by linarith
  qed
  have "2 powr of_int (e + 52) = 2 ^ 52 * u" by (simp add: powr_add u_def)
  also have "\<dots> \<le> of_int M * u" using M1 u by simp
  finally have lower: "2 powr of_int (e + 52) \<le> x" using lt by linarith
  have "x < (of_int M + 1 / 2) * u" using assms(4) by (simp add: u_def)
  also have "\<dots> \<le> 2 ^ 53 * u" using M2 u by (intro mult_right_mono) simp_all
  also have "\<dots> = 2 powr of_int (e + 52 + 1)" by (simp add: powr_add u_def)
  finally have upper: "x < 2 powr of_int (e + 52 + 1)" .
  have "\<lfloor>log 2 x\<rfloor> = e + 52" using x lower upper by (rule bexp_unique)
  then have ue: "ulp_exponent x = e" using assms(3) by (simp add: ulp_exponent_def)
  have q1: "of_int M \<le> x / u" using lt u by (simp add: pos_le_divide_eq)
  have q2: "x / u < of_int M + 1 / 2" using assms(4) u by (simp add: pos_divide_less_eq u_def)
  have "round_half_even (x / u) = M" using q1 q2 by (rule rhe_below_half)
  then show ?thesis using x ue by (simp add: round_float_pos u_def)
qed

text \<open>
  The product of a float below 1 and the rounded width does not exceed the exact width,
  when the width is a multiple of the least subnormal number.
\<close>

lemma round_product_le:
  assumes "0 < y" and "y = of_int n * 2 powr (- 1074)" and "0 \<le> f" and "f \<le> 1 - 1 / 2 ^ 53"
  shows "round_float (f * round_float y) \<le> y"
proof -
  define r where "r = round_float y"
  have r0: "0 \<le> r" using assms(1) by (simp add: r_def round_float_nonneg)
  have "f * r \<le> 1 * r" using assms(4) r0 by (intro mult_right_mono) simp_all
  then have "round_float (f * r) \<le> round_float r" by (intro round_float_mono) simp
  then have le_r: "round_float (f * r) \<le> r" by (simp add: r_def round_float_idem)
  show ?thesis
  proof (cases "r \<le> y")
    case True
    with le_r show ?thesis by (simp add: r_def)
  next
    case False
    define e where "e = ulp_exponent y"
    define u where "u = (2::real) powr of_int e"
    define m where "m = round_half_even (y / u)"
    have u: "0 < u" by (simp add: u_def)
    have r: "r = of_int m * u"
      using assms(1) by (simp add: r_def round_float_pos m_def u_def e_def)
    have e: "- 1074 < e"
    proof (rule ccontr)
      assume "\<not> - 1074 < e"
      with ulp_ge[of y] have "e = - 1074" by (simp add: e_def)
      then have "y / 2 powr of_int (ulp_exponent y) = of_int n"
        using assms(2) by (simp add: e_def)
      with assms(1) have "round_float y = y" by (rule fixed_of_quotient)
      with False show False by (simp add: r_def)
    qed
    have q52: "2 ^ 52 \<le> y / u"
      using quotient_ge[OF assms(1)] e by (simp add: e_def u_def)
    have q53: "y / u < 2 ^ 53"
      using quotient_less[OF assms(1)] by (simp add: e_def u_def)
    from False have "y < of_int m * u" by (simp add: r)
    then have qm: "y / u < of_int m" using u by (simp add: pos_divide_less_eq)
    with q52 have "real_of_int (2 ^ 52) < of_int m" by simp
    then have m52: "2 ^ 52 < m" by (simp only: of_int_less_iff)
    have "m \<le> round_half_even (2 ^ 53)" unfolding m_def using q53 by (intro rhe_mono) simp
    also have "round_half_even (2 ^ 53) = 2 ^ 53" using rhe_int[of "2 ^ 53"] by simp
    finally have m53: "m \<le> 2 ^ 53" .
    have half: "of_int m - 1 / 2 \<le> y / u" using rhe_upper[of "y / u"] by (simp add: m_def)
    then have ylow: "(of_int m - 1 / 2) * u \<le> y" using u by (simp add: pos_le_divide_eq)
    have mr: "(2::real) ^ 52 < of_int m"
    proof -
      have "real_of_int (2 ^ 52) < of_int m" using m52 by (simp only: of_int_less_iff)
      then show ?thesis by simp
    qed
    have "f * r \<le> (1 - 1 / 2 ^ 53) * r" using assms(4) r0 by (intro mult_right_mono)
    also have "\<dots> = (of_int m - of_int m / 2 ^ 53) * u" by (simp add: r algebra_simps)
    also have "\<dots> < (of_int m - 1 / 2) * u"
    proof -
      have "1 / 2 < real_of_int m / 2 ^ 53" using mr by simp
      then show ?thesis using u by (intro mult_strict_right_mono) simp_all
    qed
    finally have "f * r < (of_int (m - 1) + 1 / 2) * 2 powr of_int e"
      by (simp add: u_def)
    moreover have "2 ^ 52 \<le> m - 1" "m - 1 < 2 ^ 53" "- 1074 \<le> e" using m52 m53 e by simp_all
    ultimately have "round_float (f * r) \<le> of_int (m - 1) * 2 powr of_int e"
      by (intro round_below_midpoint)
    also have "\<dots> \<le> (of_int m - 1 / 2) * u" using u by (simp add: u_def algebra_simps)
    also note ylow
    finally show ?thesis by (simp add: r_def)
  qed
qed

text \<open>The largest float below 1 is 1 - 2^-53.\<close>

lemma float_below_one:
  assumes "round_float f = f" and "0 \<le> f" and "f < 1"
  shows "f \<le> 1 - 1 / 2 ^ 53"
proof (rule ccontr)
  define P :: real where "P = 2 ^ 53"
  have P: "2 \<le> P" by (simp add: P_def)
  assume "\<not> f \<le> 1 - 1 / 2 ^ 53"
  then have big: "1 - 1 / P < f" by (simp add: P_def)
  have "1 / P \<le> 1 / 2" using P by (simp add: field_simps)
  with big have half: "1 / 2 \<le> f" by linarith
  then have f: "0 < f" by simp
  have "(2::real) powr of_int (- 1) = 1 / 2" by (simp add: powr_neg_one)
  with half have "2 powr of_int (- 1) \<le> f" by simp
  moreover have "f < 2 powr of_int (- 1 + 1)" using assms(3) by simp
  ultimately have "\<lfloor>log 2 f\<rfloor> = - 1" using f by (intro bexp_unique)
  then have ue: "ulp_exponent f = - 53" by (simp add: ulp_exponent_def)
  define N where "N = round_half_even (f / 2 powr of_int (ulp_exponent f))"
  have pw: "(2::real) powr of_int (- 53) = 1 / P" by (simp add: P_def powr_neg_numeral)
  have "f / 2 powr of_int (ulp_exponent f) = of_int N"
    unfolding N_def using f assms(1) by (rule fixed_quotient)
  then have N: "of_int N = f * P" unfolding ue pw by simp
  have "f * P < 1 * P" using assms(3) P by (intro mult_strict_right_mono) simp_all
  then have "real_of_int N < real_of_int (2 ^ 53)" by (simp add: N P_def)
  then have 1: "N < 2 ^ 53" by (simp only: of_int_less_iff)
  have "(1 - 1 / P) * P < f * P" using big P by (intro mult_strict_right_mono) simp_all
  moreover have "(1 - 1 / P) * P = P - 1" using P by (simp add: field_simps)
  ultimately have "real_of_int (2 ^ 53 - 1) < real_of_int N" by (simp add: N P_def)
  then have 2: "2 ^ 53 - 1 < N" by (simp only: of_int_less_iff)
  from 1 2 show False by simp
qed

text \<open>The value of a sample lies between the bounds.\<close>

lemma sample_value_bounds:
  assumes "round_float a = a" and "round_float b = b" and "a < b"
    and "round_float f = f" and "0 \<le> f" and "f < 1"
  shows "0 \<le> round_float (f * round_float (b - a))"
    and "round_float (f * round_float (b - a)) \<le> round_float (b - a)"
    and "a \<le> round_float (a + round_float (f * round_float (b - a)))"
    and "round_float (a + round_float (f * round_float (b - a))) \<le> b"
proof -
  define r where "r = round_float (b - a)"
  define p where "p = round_float (f * r)"
  have r0: "0 \<le> r" using assms(3) by (simp add: r_def round_float_nonneg)
  have p0: "0 \<le> p" using assms(5) r0 by (simp add: p_def round_float_nonneg)
  have "f * r \<le> 1 * r" using assms(6) r0 by (intro mult_right_mono) simp_all
  then have "p \<le> round_float r" unfolding p_def by (intro round_float_mono) simp
  then have pr: "p \<le> r" by (simp add: r_def round_float_idem)
  from fixed_on_grid[OF assms(1)] fixed_on_grid[OF assms(2)] obtain na nb where
    "a = of_int na * 2 powr (- 1074)" "b = of_int nb * 2 powr (- 1074)" by blast
  then have g: "b - a = of_int (nb - na) * 2 powr (- 1074)" by (simp add: algebra_simps)
  have "0 < b - a" using assms(3) by simp
  from round_product_le[OF this g assms(5) float_below_one[OF assms(4,5,6)]]
  have pw: "p \<le> b - a" by (simp add: p_def r_def)
  have "round_float a \<le> round_float (a + p)" using p0 by (intro round_float_mono) simp
  then have lower: "a \<le> round_float (a + p)" by (simp add: assms(1))
  have "round_float (a + p) \<le> round_float b" using pw by (intro round_float_mono) simp
  then have upper: "round_float (a + p) \<le> b" by (simp add: assms(2))
  show "0 \<le> round_float (f * round_float (b - a))" using p0 by (simp add: p_def r_def)
  show "round_float (f * round_float (b - a)) \<le> round_float (b - a)"
    using pr by (simp add: p_def r_def)
  show "a \<le> round_float (a + round_float (f * round_float (b - a)))"
    using lower by (simp add: p_def r_def)
  show "round_float (a + round_float (f * round_float (b - a))) \<le> b"
    using upper by (simp add: p_def r_def)
qed

section \<open>Properties of RandomSampler.get_samples\<close>

lemma map_of_dict_set: "map_of (dict_set d k v) = (map_of d)(k \<mapsto> v)"
  by (induction d) (auto simp: fun_eq_iff)

lemma keys_dict_set_list:
  "keys (dict_set d k v) = (if k \<in> set (keys d) then keys d else keys d @ [k])"
  by (induction d) (force simp: keys_def)+

lemma keys_dict_set: "set (keys (dict_set d k v)) = insert k (set (keys d))"
  by (auto simp: keys_dict_set_list)

lemma distinct_dict_set: "distinct (keys d) \<Longrightarrow> distinct (keys (dict_set d k v))"
  by (simp add: keys_dict_set_list)

lemma dict_update_Cons: "dict_update d ((k, v) # e) = dict_update (dict_set d k v) e"
  by (simp add: dict_update_def)

lemma dict_update_Nil: "dict_update d [] = d"
  by (simp add: dict_update_def)

lemma map_of_dict_update:
  "distinct (keys e) \<Longrightarrow>
   map_of (dict_update d e) k = (case map_of e k of Some v \<Rightarrow> Some v | None \<Rightarrow> map_of d k)"
proof (induction e arbitrary: d)
  case Nil
  then show ?case by (simp add: dict_update_Nil)
next
  case (Cons a e)
  obtain k' v' where a: "a = (k', v')" by (cases a)
  from Cons.prems a have d: "distinct (keys e)" and n: "k' \<notin> set (keys e)"
    by (auto simp: keys_def)
  from n have "map_of e k' = None" by (simp add: keys_def map_of_eq_None_iff)
  then show ?case using Cons.IH[OF d, of "dict_set d k' v'"] a
    by (auto simp: dict_update_Cons map_of_dict_set split: option.splits)
qed

lemma keys_dict_update: "set (keys (dict_update d e)) = set (keys d) \<union> set (keys e)"
proof (induction e arbitrary: d)
  case Nil
  then show ?case by (simp add: dict_update_Nil keys_def)
next
  case (Cons a e)
  obtain k' v' where a: "a = (k', v')" by (cases a)
  show ?case using Cons[of "dict_set d k' v'"] a keys_dict_set[of d k' v']
    by (auto simp: dict_update_Cons keys_def)
qed

lemma distinct_dict_update: "distinct (keys d) \<Longrightarrow> distinct (keys (dict_update d e))"
proof (induction e arbitrary: d)
  case Nil
  then show ?case by (simp add: dict_update_Nil)
next
  case (Cons a e)
  obtain k' v' where a: "a = (k', v')" by (cases a)
  show ?case using Cons.IH[OF distinct_dict_set[OF Cons.prems, of k' v']] a
    by (simp add: dict_update_Cons)
qed

lemma merge_sample_props:
  assumes "distinct (keys rdict)" "is_dict (const_items d)"
  shows "map_of (merge_sample (cfg_constants d) rdict) k =
           (case map_of rdict k of Some v \<Rightarrow> Some v | None \<Rightarrow> map_of (const_items d) k)"
    and "set (keys (merge_sample (cfg_constants d) rdict)) =
           set (keys (const_items d)) \<union> set (keys rdict)"
    and "is_dict (merge_sample (cfg_constants d) rdict)"
proof -
  have m: "merge_sample (cfg_constants d) rdict = dict_update (dict_update [] (const_items d)) rdict"
    by (simp add: merge_sample_def const_items_def dict_update_Nil split: option.splits)
  have c: "distinct (keys (const_items d))" using assms(2) by (simp add: is_dict_def keys_def)
  show "map_of (merge_sample (cfg_constants d) rdict) k =
           (case map_of rdict k of Some v \<Rightarrow> Some v | None \<Rightarrow> map_of (const_items d) k)"
    using assms(1) c by (simp add: m map_of_dict_update split: option.splits)
  show "set (keys (merge_sample (cfg_constants d) rdict)) =
           set (keys (const_items d)) \<union> set (keys rdict)"
    by (simp add: m keys_dict_update) (simp add: keys_def)
  have "distinct (keys (dict_update (dict_update [] (const_items d)) rdict))"
    by (intro distinct_dict_update) (simp add: keys_def)
  then show "is_dict (merge_sample (cfg_constants d) rdict)"
    by (simp add: m is_dict_def keys_def)
qed

lemma is_float_finite: "is_float x \<Longrightarrow> \<bar>x\<bar> < 2 ^ 1024"
  by (simp add: is_float_def)

lemma float_result_finite: "\<bar>round_float x\<bar> < 2 ^ 1024 \<Longrightarrow> float_result x = Inr (round_float x)"
  by (simp add: float_result_def)

lemma float_of_int_small:
  assumes "\<bar>i\<bar> \<le> 2 ^ 53"
  shows "float_of_int i = Inr (of_int i)" and "is_float (of_int i)"
proof -
  have "real_of_int \<bar>i\<bar> \<le> real_of_int (2 ^ 53)" using assms by (simp only: of_int_le_iff)
  then have "\<bar>real_of_int i\<bar> \<le> 2 ^ 53" by simp
  also have "(2::real) ^ 53 < 2 ^ 1024" by simp
  finally have fin: "\<bar>real_of_int i\<bar> < 2 ^ 1024" .
  with float_of_int_exact[OF assms] show "float_of_int i = Inr (of_int i)"
    by (simp add: float_of_int_def)
  from fin float_of_int_exact[OF assms] show "is_float (of_int i)"
    by (simp add: is_float_def)
qed

lemma float_bound_is_float: "float_bound a \<Longrightarrow> number a = Some x \<Longrightarrow> is_float x"
  by (cases a) (auto simp: float_of_int_small(2))

text \<open>The subtraction of two bounds, and the product of a float and the difference.\<close>

lemma py_sub_bounds:
  assumes "float_bound a" and "float_bound b" and "number a = Some x" and "number b = Some y"
    and "\<bar>round_float (y - x)\<bar> < 2 ^ 1024"
  shows "\<exists>w. py_sub b a = Inr w \<and> (\<forall>f. float_mul f w = float_result (f * round_float (y - x)))"
proof (cases a)
  case (PInt i)
  with assms have i: "\<bar>i\<bar> \<le> 2 ^ 53" "x = of_int i" by simp_all
  show ?thesis
  proof (cases b)
    case (PInt j)
    with assms have j: "y = of_int j" by simp
    have "float_of_int (j - i) = Inr (round_float (y - x))"
      using assms(5) by (simp add: float_of_int_def i(2) j)
    then show ?thesis by (simp add: PInt \<open>a = PInt i\<close>)
  next
    case (PFloat z)
    with assms have "y = z" by simp
    then show ?thesis
      using float_of_int_small(1)[OF i(1)] float_result_finite[OF assms(5)]
      by (simp add: PFloat \<open>a = PInt i\<close> i(2))
  qed (use assms in simp_all)
next
  case (PFloat z)
  with assms have z: "x = z" by simp
  show ?thesis
  proof (cases b)
    case (PInt j)
    with assms have j: "\<bar>j\<bar> \<le> 2 ^ 53" "y = of_int j" by simp_all
    show ?thesis
      using float_of_int_small(1)[OF j(1)] float_result_finite[OF assms(5)]
      by (simp add: PInt \<open>a = PFloat z\<close> z j(2))
  next
    case (PFloat u)
    with assms have "y = u" by simp
    then show ?thesis
      using float_result_finite[OF assms(5)]
      by (simp add: PFloat \<open>a = PFloat z\<close> z)
  qed (use assms in simp_all)
qed (use assms in simp_all)

lemma add_float_bound:
  assumes "float_bound a" and "number a = Some x"
  shows "add_float a p = float_result (x + p)"
  using assms by (cases a) (simp_all add: float_of_int_small(1))

lemma float_boundsD:
  assumes "float_bounds v"
  shows "\<exists>a b. map_of v (KStr ''min'') = Some a \<and> map_of v (KStr ''max'') = Some b
           \<and> float_bound a \<and> float_bound b
           \<and> number a = Some (lo v) \<and> number b = Some (hi v)
           \<and> lo v < hi v \<and> round_float (hi v - lo v) < 2 ^ 1024"
proof -
  from assms obtain a b where ab: "map_of v (KStr ''min'') = Some a"
    "map_of v (KStr ''max'') = Some b" "float_bound a" "float_bound b" "lo v < hi v"
    "round_float (hi v - lo v) < 2 ^ 1024"
    by (cases "map_of v (KStr ''min'')"; cases "map_of v (KStr ''max'')")
       (simp_all add: float_bounds_def)
  from ab(3) obtain x where x: "number a = Some x" by (cases a) simp_all
  from ab(4) obtain y where y: "number b = Some y" by (cases b) simp_all
  have "lo v = x" "hi v = y" using ab(1,2) x y by (simp_all add: lo_def hi_def bound_value_def)
  with ab x y show ?thesis by simp
qed

text \<open>What the two loops do with the bounds of one parameter.\<close>

lemma float_bounds_entries:
  assumes "float_bounds v"
  shows "getitem v (KStr ''min'') = Inr (min_of v)"
    and "\<exists>mx. getitem v (KStr ''max'') = Inr mx \<and> py_sub mx (min_of v) = Inr (range_of v)"
proof -
  from float_boundsD[OF assms] obtain a b where ab: "map_of v (KStr ''min'') = Some a"
    "map_of v (KStr ''max'') = Some b" "float_bound a" "float_bound b"
    "number a = Some (lo v)" "number b = Some (hi v)" "lo v < hi v"
    "round_float (hi v - lo v) < 2 ^ 1024" by blast
  have "0 \<le> round_float (hi v - lo v)" using ab(7) by (intro round_float_nonneg) simp
  with ab(8) have fin: "\<bar>round_float (hi v - lo v)\<bar> < 2 ^ 1024" by simp
  from py_sub_bounds[OF ab(3,4,5,6) fin] obtain w where "py_sub b a = Inr w" by blast
  then show "\<exists>mx. getitem v (KStr ''max'') = Inr mx \<and> py_sub mx (min_of v) = Inr (range_of v)"
    using ab(1,2) by (simp add: getitem_def min_of_def range_of_def)
  show "getitem v (KStr ''min'') = Inr (min_of v)"
    using ab(1) by (simp add: getitem_def min_of_def)
qed

lemma float_bounds_draw:
  assumes "float_bounds v" and "is_float f" and "0 \<le> f" and "f < 1"
  shows "\<exists>p. float_mul f (range_of v) = Inr p
           \<and> add_float (min_of v) p = Inr (sample_value (lo v) (hi v) f)"
    and "lo v \<le> sample_value (lo v) (hi v) f"
    and "sample_value (lo v) (hi v) f \<le> hi v"
proof -
  from float_boundsD[OF assms(1)] obtain a b where ab: "map_of v (KStr ''min'') = Some a"
    "map_of v (KStr ''max'') = Some b" "float_bound a" "float_bound b"
    "number a = Some (lo v)" "number b = Some (hi v)" "lo v < hi v"
    "round_float (hi v - lo v) < 2 ^ 1024" by blast
  define r where "r = round_float (hi v - lo v)"
  define p where "p = round_float (f * r)"
  have fa: "is_float (lo v)" using ab(3,5) by (rule float_bound_is_float)
  have fb: "is_float (hi v)" using ab(4,6) by (rule float_bound_is_float)
  note sv = sample_value_bounds[of "lo v" "hi v" f]
  have ra: "round_float (lo v) = lo v" and rb: "round_float (hi v) = hi v"
    and rf: "round_float f = f"
    using fa fb assms(2) by (simp_all add: is_float_def)
  note b = sv[OF ra rb ab(7) rf assms(3,4)]
  have r0: "0 \<le> r" using ab(7) unfolding r_def by (intro round_float_nonneg) simp
  with ab(8) have fin: "\<bar>r\<bar> < 2 ^ 1024" by (simp add: r_def)
  have p0: "0 \<le> p" and pr: "p \<le> r" using b(1,2) by (simp_all add: p_def r_def)
  with fin have finp: "\<bar>p\<bar> < 2 ^ 1024" by simp
  have lower: "lo v \<le> round_float (lo v + p)" and upper: "round_float (lo v + p) \<le> hi v"
    using b(3,4) by (simp_all add: p_def r_def)
  have "\<bar>round_float (lo v + p)\<bar> \<le> max \<bar>lo v\<bar> \<bar>hi v\<bar>" using lower upper by simp
  also have "\<dots> < 2 ^ 1024" using is_float_finite[OF fa] is_float_finite[OF fb] by simp
  finally have finv: "\<bar>round_float (lo v + p)\<bar> < 2 ^ 1024" .
  from py_sub_bounds[OF ab(3,4,5,6)] fin obtain w where
    w: "py_sub b a = Inr w" "\<forall>f. float_mul f w = float_result (f * r)"
    by (auto simp: r_def)
  have rw: "range_of v = w" using w(1) ab(1,2) by (simp add: range_of_def min_of_def)
  have 1: "float_mul f (range_of v) = Inr p"
    using w(2) float_result_finite[of "f * r"] finp by (simp add: rw p_def)
  have 2: "add_float (min_of v) p = Inr (sample_value (lo v) (hi v) f)"
    using add_float_bound[OF ab(3,5), of p] float_result_finite[OF finv] ab(1)
    by (simp add: min_of_def sample_value_def p_def r_def)
  from 1 2 show "\<exists>p. float_mul f (range_of v) = Inr p
           \<and> add_float (min_of v) p = Inr (sample_value (lo v) (hi v) f)" by blast
  show "lo v \<le> sample_value (lo v) (hi v) f" using lower by (simp add: sample_value_def p_def r_def)
  show "sample_value (lo v) (hi v) f \<le> hi v" using upper by (simp add: sample_value_def p_def r_def)
qed

lemma bounds_loop_eq:
  "\<forall>(k, v) \<in> set ps. float_bounds v \<Longrightarrow>
   bounds_loop ps md rd =
     Inr (dict_update md (map (\<lambda>(k, v). (k, min_of v)) ps),
          dict_update rd (map (\<lambda>(k, v). (k, range_of v)) ps))"
proof (induction ps arbitrary: md rd)
  case Nil
  then show ?case by (simp add: dict_update_Nil)
next
  case (Cons a ps)
  obtain k v where a: "a = (k, v)" by (cases a)
  with Cons.prems have fb: "float_bounds v" by simp
  from float_bounds_entries[OF fb] obtain mx where
    g: "getitem v (KStr ''min'') = Inr (min_of v)" "getitem v (KStr ''max'') = Inr mx"
       "py_sub mx (min_of v) = Inr (range_of v)" by blast
  from Cons.prems have "\<forall>(k, v) \<in> set ps. float_bounds v" by simp
  from Cons.IH[OF this] show ?case using a g by (simp add: dict_update_Cons)
qed

lemma map_of_mapped:
  "distinct (keys ps) \<Longrightarrow> (k, v) \<in> set ps \<Longrightarrow>
   map_of (dict_update [] (map (\<lambda>(k, v). (k, g v)) ps)) k = Some (g v)"
proof -
  assume d: "distinct (keys ps)" and m: "(k, v) \<in> set ps"
  have k: "keys (map (\<lambda>(k, v). (k, g v)) ps) = keys ps"
    by (induction ps) (auto simp: keys_def)
  have "map_of (map (\<lambda>(k, v). (k, g v)) ps) k = Some (g v)"
    using d m by (induction ps) (auto simp: keys_def rev_image_eqI)
  then show ?thesis using d k by (simp add: map_of_dict_update)
qed

lemma random_dictionary_loop_ok:
  assumes "\<forall>k \<in> set ks. map_of md k = Some (A k) \<and> map_of rd k = Some (W k)
             \<and> (\<forall>n. \<exists>p. float_mul (rnd n) (W k) = Inr p \<and> add_float (A k) p = Inr (V k n))"
    and "distinct ks"
  shows "\<exists>d. random_dictionary_loop rnd n ks md rd acc = Inr d
           \<and> set (keys d) = set (keys acc) \<union> set ks
           \<and> (distinct (keys acc) \<longrightarrow> distinct (keys d))
           \<and> (\<forall>k \<in> set ks. \<exists>m. map_of d k = Some (PFloat (V k m)))
           \<and> (\<forall>k. k \<notin> set ks \<longrightarrow> map_of d k = map_of acc k)"
  using assms
proof (induction ks arbitrary: n acc)
  case Nil
  then show ?case by simp
next
  case (Cons k ks)
  let ?acc = "dict_set acc k (PFloat (V k n))"
  from Cons.prems have g: "getitem md k = Inr (A k)" "getitem rd k = Inr (W k)"
    by (simp_all add: getitem_def)
  from Cons.prems obtain p where
    pq: "float_mul (rnd n) (W k) = Inr p" "add_float (A k) p = Inr (V k n)"
    by (meson list.set_intros(1))
  from Cons.prems have p: "\<forall>k \<in> set ks. map_of md k = Some (A k) \<and> map_of rd k = Some (W k)
             \<and> (\<forall>n. \<exists>p. float_mul (rnd n) (W k) = Inr p \<and> add_float (A k) p = Inr (V k n))"
    and d: "distinct ks" and kn: "k \<notin> set ks" by simp_all
  from Cons.IH[OF p d, of "Suc n" ?acc] obtain dd where
    dd: "random_dictionary_loop rnd (Suc n) ks md rd ?acc = Inr dd"
      "set (keys dd) = set (keys ?acc) \<union> set ks"
      "distinct (keys ?acc) \<longrightarrow> distinct (keys dd)"
      "\<forall>k \<in> set ks. \<exists>m. map_of dd k = Some (PFloat (V k m))"
      "\<forall>k. k \<notin> set ks \<longrightarrow> map_of dd k = map_of ?acc k"
    by blast
  have 1: "random_dictionary_loop rnd n (k # ks) md rd acc = Inr dd"
    using g pq dd(1) by simp
  have 2: "set (keys dd) = set (keys acc) \<union> set (k # ks)"
    unfolding dd(2) keys_dict_set by auto
  have 3: "distinct (keys acc) \<longrightarrow> distinct (keys dd)"
    using dd(3) distinct_dict_set[of acc k] by simp
  have "map_of dd k = Some (PFloat (V k n))"
    using dd(5) kn by (simp add: map_of_dict_set)
  then have 4: "\<forall>k' \<in> set (k # ks). \<exists>m. map_of dd k' = Some (PFloat (V k' m))"
    using dd(4) by auto
  have 5: "\<forall>k'. k' \<notin> set (k # ks) \<longrightarrow> map_of dd k' = map_of acc k'"
    using dd(5) by (simp add: map_of_dict_set)
  show ?case
    by (intro exI[of _ dd] conjI) (rule 1 2 3 4 5)+
qed

lemma random_list_loop_ok:
  assumes "\<forall>k \<in> set ks. map_of md k = Some (A k) \<and> map_of rd k = Some (W k)
             \<and> (\<forall>n. \<exists>p. float_mul (rnd n) (W k) = Inr p \<and> add_float (A k) p = Inr (V k n))"
    and "distinct ks"
  shows "\<exists>ds. random_list_loop rnd n c ks md rd acc = Inr (acc @ ds)
           \<and> length ds = c
           \<and> (\<forall>d \<in> set ds. set (keys d) = set ks \<and> distinct (keys d)
                 \<and> (\<forall>k \<in> set ks. \<exists>m. map_of d k = Some (PFloat (V k m))))"
proof (induction c arbitrary: n acc)
  case 0
  then show ?case by simp
next
  case (Suc c)
  from random_dictionary_loop_ok[OF assms, of n "[]"] obtain d where
    d: "random_dictionary_loop rnd n ks md rd [] = Inr d" "set (keys d) = set ks"
       "distinct (keys d)" "\<forall>k \<in> set ks. \<exists>m. map_of d k = Some (PFloat (V k m))"
    by (auto simp: keys_def)
  from Suc[of "n + length ks" "acc @ [d]"] obtain ds where
    ds: "random_list_loop rnd (n + length ks) c ks md rd (acc @ [d]) = Inr ((acc @ [d]) @ ds)"
      "length ds = c"
      "\<forall>d \<in> set ds. set (keys d) = set ks \<and> distinct (keys d)
                 \<and> (\<forall>k \<in> set ks. \<exists>m. map_of d k = Some (PFloat (V k m)))"
    by blast
  have 1: "random_list_loop rnd n (Suc c) ks md rd acc = Inr (acc @ d # ds)"
    using d(1) ds(1) by simp
  have 2: "length (d # ds) = Suc c" using ds(2) by simp
  have 3: "\<forall>d \<in> set (d # ds). set (keys d) = set ks \<and> distinct (keys d)
                 \<and> (\<forall>k \<in> set ks. \<exists>m. map_of d k = Some (PFloat (V k m)))"
    using d(2,3,4) ds(3) by simp
  show ?case
    by (intro exI[of _ "d # ds"] conjI) (rule 1 2 3)+
qed

text \<open>
  C1. For a new random sampler whose data holds \<^verbatim>\<open>num_samples\<close> = N and a dictionary
  \<^verbatim>\<open>parameters\<close> in which the bounds of every parameter are floats, or integers of
  absolute value at most 2^53, with min < max and a finite float difference max - min
  (the constants, if any, being a dictionary too), and for draws of
  \<^verbatim>\<open>random.random()\<close> that are floats in [0, 1): \<^verbatim>\<open>get_samples\<close> returns N samples
  and caches them; in each sample the value of every ranged parameter is
  min + f * (max - min) for one of the draws f, each of the three operations rounding
  its result, and this value is at least min and at most max; the keys of the sample
  are the keys of the constants and of the parameters; and a constant that is not a
  ranged parameter keeps its value, while for a name in both blocks the value is the
  ranged one.
\<close>

theorem get_samples_random:
  assumes "cfg_num_samples d = Some (PInt (int N))"
    and "cfg_parameters d = Some ps" and "is_dict ps"
    and "\<forall>(k, v) \<in> set ps. float_bounds v"
    and "is_dict (const_items d)"
    and "\<forall>n. is_float (rnd n) \<and> 0 \<le> rnd n \<and> rnd n < 1"
  shows "\<exists>samples.
           get_samples rnd (init_sampler d) =
             Inr (samples, (init_sampler d)\<lparr>priv_samples := Some samples\<rparr>)
         \<and> length samples = N
         \<and> (\<forall>s \<in> set samples.
               is_dict s
             \<and> set (keys s) = set (keys (const_items d)) \<union> set (keys ps)
             \<and> (\<forall>(k, v) \<in> set ps. \<exists>n.
                   map_of s k = Some (PFloat (sample_value (lo v) (hi v) (rnd n)))
                 \<and> lo v \<le> sample_value (lo v) (hi v) (rnd n)
                 \<and> sample_value (lo v) (hi v) (rnd n) \<le> hi v)
             \<and> (\<forall>(k, c) \<in> set (const_items d).
                   k \<notin> set (keys ps) \<longrightarrow> map_of s k = Some c))"
proof -
  let ?md = "dict_update [] (map (\<lambda>(k, v). (k, min_of v)) ps)"
  let ?rd = "dict_update [] (map (\<lambda>(k, v). (k, range_of v)) ps)"
  let ?A = "\<lambda>k. min_of (the (map_of ps k))"
  let ?W = "\<lambda>k. range_of (the (map_of ps k))"
  let ?V = "\<lambda>k n. sample_value (lo (the (map_of ps k))) (hi (the (map_of ps k))) (rnd n)"
  have dk: "distinct (keys ps)" using assms(3) by (simp add: is_dict_def keys_def)
  have bl: "bounds_loop ps [] [] = Inr (?md, ?rd)"
    using assms(4) by (rule bounds_loop_eq)
  have look: "map_of ps k = Some v" if "(k, v) \<in> set ps" for k v
    using that assms(3) by (simp add: is_dict_def)
  have rn: "is_float (rnd n)" "0 \<le> rnd n" "rnd n < 1" for n using assms(6) by simp_all
  have tab: "\<forall>k \<in> set (keys ps). map_of ?md k = Some (?A k) \<and> map_of ?rd k = Some (?W k)
      \<and> (\<forall>n. \<exists>p. float_mul (rnd n) (?W k) = Inr p \<and> add_float (?A k) p = Inr (?V k n))"
  proof
    fix k assume "k \<in> set (keys ps)"
    then obtain v where v: "(k, v) \<in> set ps" by (auto simp: keys_def)
    then have fb: "float_bounds v" using assms(4) by auto
    have dr: "\<exists>p. float_mul (rnd n) (range_of v) = Inr p
               \<and> add_float (min_of v) p = Inr (sample_value (lo v) (hi v) (rnd n))" for n
      using fb rn by (rule float_bounds_draw(1))
    from map_of_mapped[OF dk v, of min_of] map_of_mapped[OF dk v, of range_of] look[OF v] dr
    show "map_of ?md k = Some (?A k) \<and> map_of ?rd k = Some (?W k)
      \<and> (\<forall>n. \<exists>p. float_mul (rnd n) (?W k) = Inr p \<and> add_float (?A k) p = Inr (?V k n))"
      by simp
  qed
  from random_list_loop_ok[OF tab dk, of 0 N "[]"] obtain ds where
    ds: "random_list_loop rnd 0 N (keys ps) ?md ?rd [] = Inr ds" "length ds = N"
      "\<forall>d \<in> set ds. set (keys d) = set (keys ps) \<and> distinct (keys d)
          \<and> (\<forall>k \<in> set (keys ps). \<exists>m. map_of d k = Some (PFloat (?V k m)))"
    by auto
  let ?samples = "map (merge_sample (cfg_constants d)) ds"
  have 1: "get_samples rnd (init_sampler d) =
             Inr (?samples, (init_sampler d)\<lparr>priv_samples := Some ?samples\<rparr>)"
    using assms(1,2) bl ds(1) by (simp add: get_samples_def init_sampler_def Let_def)
  have 2: "length ?samples = N" using ds(2) by simp
  have 3: "is_dict s
             \<and> set (keys s) = set (keys (const_items d)) \<union> set (keys ps)
             \<and> (\<forall>(k, v) \<in> set ps. \<exists>n.
                   map_of s k = Some (PFloat (sample_value (lo v) (hi v) (rnd n)))
                 \<and> lo v \<le> sample_value (lo v) (hi v) (rnd n)
                 \<and> sample_value (lo v) (hi v) (rnd n) \<le> hi v)
             \<and> (\<forall>(k, c) \<in> set (const_items d).
                   k \<notin> set (keys ps) \<longrightarrow> map_of s k = Some c)"
    if s: "s \<in> set ?samples" for s
  proof -
    from s obtain rdict where r: "rdict \<in> set ds" "s = merge_sample (cfg_constants d) rdict"
      by auto
    from ds(3) r(1) have rk: "set (keys rdict) = set (keys ps)" and rdist: "distinct (keys rdict)"
      and rv: "\<forall>k \<in> set (keys ps). \<exists>m. map_of rdict k = Some (PFloat (?V k m))"
      by auto
    note mp = merge_sample_props[OF rdist assms(5)]
    have a: "is_dict s" using mp(3) r(2) by simp
    have b: "set (keys s) = set (keys (const_items d)) \<union> set (keys ps)"
      using mp(2) r(2) rk by simp
    have c: "\<exists>n. map_of s k = Some (PFloat (sample_value (lo v) (hi v) (rnd n)))
                 \<and> lo v \<le> sample_value (lo v) (hi v) (rnd n)
                 \<and> sample_value (lo v) (hi v) (rnd n) \<le> hi v"
      if kv: "(k, v) \<in> set ps" for k v
    proof -
      from kv have "k \<in> set (keys ps)" by (force simp: keys_def)
      with rv obtain m where m: "map_of rdict k = Some (PFloat (?V k m))" by blast
      with look[OF kv] have m': "map_of rdict k = Some (PFloat (sample_value (lo v) (hi v) (rnd m)))"
        by simp
      have sm: "map_of s k = Some (PFloat (sample_value (lo v) (hi v) (rnd m)))"
        using mp(1)[of k] m' r(2) by simp
      from kv assms(4) have fb: "float_bounds v" by auto
      from float_bounds_draw(2,3)[OF fb rn[of m]] sm show ?thesis
        by (intro exI[of _ m]) simp
    qed
    have e: "map_of s k = Some cv" if kc: "(k, cv) \<in> set (const_items d)"
      and nk: "k \<notin> set (keys ps)" for k cv
    proof -
      from nk rk have "map_of rdict k = None" by (simp add: keys_def map_of_eq_None_iff)
      moreover have "map_of (const_items d) k = Some cv"
        using kc assms(5) by (simp add: is_dict_def)
      ultimately show ?thesis using mp(1)[of k] r(2) by simp
    qed
    from a b c e show ?thesis by blast
  qed
  show ?thesis
    by (intro exI[of _ ?samples] conjI ballI) (use 1 2 3 in blast)+
qed

theorem get_samples_random_witness:
  "cfg_num_samples sample_config = Some (PInt (int 2))
   \<and> cfg_parameters sample_config =
        Some [(KStr ''X2'', [(KStr ''min'', PInt 5), (KStr ''max'', PInt 10)])]
   \<and> is_dict [(KStr ''X2'', [(KStr ''min'', PInt 5), (KStr ''max'', PInt 10)])]
   \<and> float_bounds [(KStr ''min'', PInt 5), (KStr ''max'', PInt 10)]
   \<and> is_dict (const_items sample_config)
   \<and> is_float (1 / 2) \<and> (0::real) \<le> 1 / 2 \<and> (1::real) / 2 < 1
   \<and> sample_value 5 10 (1 / 2) = 15 / 2
   \<and> (\<exists>samples. get_samples (\<lambda>n. 1 / 2) (init_sampler sample_config) =
          Inr (samples, (init_sampler sample_config)\<lparr>priv_samples := Some samples\<rparr>)
        \<and> length samples = 2
        \<and> list_all (\<lambda>s. map_of s (KStr ''X1'') = Some (PInt 20)
                       \<and> map_of s (KStr ''X2'') = Some (PFloat (15 / 2))) samples)"
proof -
  let ?v = "[(KStr ''min'', PInt 5), (KStr ''max'', PInt 10)]"
  let ?ps = "[(KStr ''X2'', ?v)]"
  let ?rnd = "\<lambda>n::nat. (1::real) / 2"
  have r5: "round_float 5 = 5" using float_of_int_exact[of 5] by simp
  have r52: "round_float (5 / 2) = 5 / 2" using float_fixed[of 5 "- 1"] by simp
  have r152: "round_float (15 / 2) = 15 / 2" using float_fixed[of 15 "- 1"] by simp
  have r12: "round_float (1 / 2) = 1 / 2" using float_fixed[of 1 "- 1"] by simp
  have lh: "lo ?v = 5" "hi ?v = 10" by (simp_all add: lo_def hi_def bound_value_def)
  have sv: "sample_value 5 10 (1 / 2) = 15 / 2" by (simp add: sample_value_def r5 r52 r152)
  have h1: "cfg_num_samples sample_config = Some (PInt (int 2))"
    by (simp add: sample_config_def)
  have h2: "cfg_parameters sample_config = Some ?ps" by (simp add: sample_config_def)
  have h3: "is_dict ?ps" by (simp add: is_dict_def)
  have fb: "float_bounds ?v" by (simp add: float_bounds_def lh r5)
  then have h4: "\<forall>(k, v) \<in> set ?ps. float_bounds v" by simp
  have h5: "is_dict (const_items sample_config)"
    by (simp add: const_items_def sample_config_def is_dict_def)
  have fl: "is_float (1 / 2)" by (simp add: is_float_def r12)
  then have h6: "\<forall>n. is_float (?rnd n) \<and> 0 \<le> ?rnd n \<and> ?rnd n < 1" by simp
  from get_samples_random[OF h1 h2 h3 h4 h5 h6]
  obtain samples where s: "get_samples ?rnd (init_sampler sample_config) =
             Inr (samples, (init_sampler sample_config)\<lparr>priv_samples := Some samples\<rparr>)"
    "length samples = 2"
    and each: "\<forall>s \<in> set samples.
        (\<forall>(k, v) \<in> set ?ps. \<exists>n. map_of s k = Some (PFloat (sample_value (lo v) (hi v) (?rnd n))))
      \<and> (\<forall>(k, c) \<in> set (const_items sample_config). k \<notin> set (keys ?ps) \<longrightarrow> map_of s k = Some c)"
    by blast
  have "map_of s (KStr ''X1'') = Some (PInt 20) \<and> map_of s (KStr ''X2'') = Some (PFloat (15 / 2))"
    if "s \<in> set samples" for s
    using each that by (simp add: lh sv const_items_def sample_config_def keys_def)
  then have "list_all (\<lambda>s. map_of s (KStr ''X1'') = Some (PInt 20)
                       \<and> map_of s (KStr ''X2'') = Some (PFloat (15 / 2))) samples"
    by (simp add: list_all_iff)
  with s h1 h2 h3 fb h5 fl sv show ?thesis by auto
qed

text \<open>
  The value of a ranged parameter can be max: with the bounds 1 and 2 and the draw
  1 - 2^-53, the largest float below 1, the sum 1 + f * (2 - 1) is 2 - 2^-53 before it
  is rounded, halfway between the floats 2 - 2^-52 and 2, and the result is 2.
\<close>

theorem get_samples_maximum_counterexample:
  "numeric_bounds [(KStr ''min'', PInt 1), (KStr ''max'', PInt 2)]
   \<and> hi [(KStr ''min'', PInt 1), (KStr ''max'', PInt 2)] = 2
   \<and> is_float (1 - 1 / 2 ^ 53) \<and> (0::real) \<le> 1 - 1 / 2 ^ 53 \<and> (1::real) - 1 / 2 ^ 53 < 1
   \<and> get_samples (\<lambda>n. 1 - 1 / 2 ^ 53) (init_sampler unit_config) =
        Inr ([[(KStr ''X'', PFloat 2)]],
             (init_sampler unit_config)\<lparr>priv_samples := Some [[(KStr ''X'', PFloat 2)]]\<rparr>)"
proof -
  let ?v = "[(KStr ''min'', PInt 1), (KStr ''max'', PInt 2)]"
  define f :: real where "f = 1 - 1 / 2 ^ 53"
  have f01: "0 \<le> f" "f < 1" by (simp_all add: f_def)
  have "f = of_int (2 ^ 53 - 1) * 2 powr of_int (- 53)"
    by (simp add: f_def powr_neg_numeral field_simps)
  moreover have "round_float (of_int (2 ^ 53 - 1) * 2 powr of_int (- 53)) =
      of_int (2 ^ 53 - 1) * 2 powr of_int (- 53)"
    by (rule float_fixed) simp_all
  ultimately have rf: "round_float f = f" by simp
  have ff: "is_float f" using rf f01 by (simp add: is_float_def)
  have fin: "\<bar>f\<bar> < 2 ^ 1024" using ff by (rule is_float_finite)
  have r1: "round_float 1 = 1" using float_of_int_exact[of 1] by simp
  have r2: "round_float (1 + f) = 2"
  proof -
    define x where "x = 1 + f"
    have x12: "1 \<le> x" "x < 2" using f01 by (simp_all add: x_def)
    then have x0: "0 < x" by simp
    have "\<lfloor>log 2 x\<rfloor> = 0" using x0 x12 by (intro bexp_unique) simp_all
    then have ue: "ulp_exponent x = - 52" by (simp add: ulp_exponent_def)
    have "x / 2 powr of_int (- 52) = of_int (2 ^ 53 - 1) + 1 / 2"
      by (simp add: x_def f_def powr_neg_numeral)
    moreover have "round_half_even (of_int (2 ^ 53 - 1) + 1 / 2) = 2 ^ 53"
    proof -
      have "\<lfloor>real_of_int (2 ^ 53 - 1) + 1 / 2\<rfloor> = 2 ^ 53 - 1" by linarith
      then show ?thesis unfolding round_half_even_def Let_def by simp
    qed
    ultimately have "round_half_even (x / 2 powr of_int (ulp_exponent x)) = 2 ^ 53"
      by (simp only: ue)
    then have "round_float x = of_int (2 ^ 53) * 2 powr of_int (- 52)"
      using x0 by (simp only: round_float_pos ue)
    also have "\<dots> = 2" by (simp add: powr_neg_numeral)
    finally show ?thesis by (simp add: x_def)
  qed
  have fi: "float_of_int 1 = Inr 1" by (simp add: float_of_int_def r1)
  have m: "float_result f = Inr f" using rf fin by (simp add: float_result_def)
  have a: "float_result (1 + f) = Inr 2" by (simp add: float_result_def r2)
  have g: "get_samples (\<lambda>n. f) (init_sampler unit_config) =
        Inr ([[(KStr ''X'', PFloat 2)]],
             (init_sampler unit_config)\<lparr>priv_samples := Some [[(KStr ''X'', PFloat 2)]]\<rparr>)"
    by (simp add: get_samples_def init_sampler_def unit_config_def getitem_def
        dict_update_def merge_sample_def keys_def Let_def fi m a)
  have nb: "numeric_bounds ?v" "hi ?v = 2"
    by (simp_all add: numeric_bounds_def hi_def bound_value_def)
  from nb ff f01 g show ?thesis unfolding f_def by simp
qed

text \<open>
  An integer bound beyond the floats: the difference of the bounds is an integer, and
  its conversion for the product with the draw raises \<^verbatim>\<open>OverflowError\<close>.
\<close>

lemma get_samples_overflow: "get_samples rnd (init_sampler huge_config) = Inl OverflowError"
proof -
  have "round_float (of_int (2 ^ 52) * 2 powr of_int 972) = of_int (2 ^ 52) * 2 powr of_int 972"
    by (rule float_fixed) simp_all
  moreover have "real_of_int (2 ^ 52) * 2 powr of_int 972 = 2 ^ 1024" by simp
  ultimately have r: "round_float (2 ^ 1024) = 2 ^ 1024" by simp
  have "float_of_int (2 ^ 1024) = Inl OverflowError"
    using r by (simp add: float_of_int_def)
  then show ?thesis
    by (simp add: get_samples_def init_sampler_def huge_config_def getitem_def
        dict_update_def keys_def Let_def)
qed

section \<open>Properties of downselect\<close>

lemma tree_query_member:
  assumes "distance_ok distance" "pos \<in> set tree"
  shows "tree_query distance tree pos = 0"
proof -
  let ?A = "set (map (distance pos) tree)"
  have f: "finite ?A" "?A \<noteq> {}" using assms(2) by auto
  have "distance pos pos \<in> ?A" using assms(2) by auto
  then have "0 \<in> ?A" using assms(1) by (simp add: distance_ok_def)
  then have "Min ?A \<le> 0" using f by (intro Min_le) auto
  moreover have "0 \<le> Min ?A" using f assms(1) by (auto simp: distance_ok_def)
  ultimately show ?thesis by (simp add: tree_query_def)
qed


lemma search_fold:
  assumes "fold (search_step distance tree cands) is (j0, d0) = (j, d)"
  shows "(j = j0 \<and> d = d0 \<and> (\<forall>i \<in> set is. tree_query distance tree (cands ! i) \<le> d0))
       \<or> (j \<in> set is \<and> d = tree_query distance tree (cands ! j) \<and> d0 < d
            \<and> (\<forall>i \<in> set is. tree_query distance tree (cands ! i) \<le> d))"
  using assms
proof (induction "is" arbitrary: j0 d0)
  case Nil
  then show ?case by simp
next
  case (Cons i "is")
  let ?q = "\<lambda>i. tree_query distance tree (cands ! i)"
  show ?case
  proof (cases "?q i > d0")
    case True
    then have "search_step distance tree cands i (j0, d0) = (i, ?q i)"
      by (simp add: search_step_def)
    with Cons.prems have "fold (search_step distance tree cands) is (i, ?q i) = (j, d)"
      by simp
    from Cons.IH[OF this] True show ?thesis by auto
  next
    case False
    then have "search_step distance tree cands i (j0, d0) = (j0, d0)"
      by (simp add: search_step_def)
    with Cons.prems have "fold (search_step distance tree cands) is (j0, d0) = (j, d)"
      by simp
    from Cons.IH[OF this] False show ?thesis by auto
  qed
qed

lemma search_none:
  "(fst (search distance tree cands) = length cands)
   = (\<forall>i. 1 \<le> i \<and> i < length cands \<longrightarrow> tree_query distance tree (cands ! i) \<le> 0)"
proof -
  obtain j d where jd: "search distance tree cands = (j, d)" by (cases "search distance tree cands")
  then have "fold (search_step distance tree cands) [1..<length cands] (length cands, 0) = (j, d)"
    by (simp add: search_def Let_def)
  from search_fold[OF this] show ?thesis using jd by auto
qed

lemma search_some:
  assumes "fst (search distance tree cands) \<noteq> length cands"
  shows "1 \<le> fst (search distance tree cands) \<and> fst (search distance tree cands) < length cands
       \<and> 0 < tree_query distance tree (cands ! fst (search distance tree cands))
       \<and> (\<forall>i. 1 \<le> i \<and> i < length cands \<longrightarrow>
             tree_query distance tree (cands ! i)
               \<le> tree_query distance tree (cands ! fst (search distance tree cands)))"
proof -
  obtain j d where jd: "search distance tree cands = (j, d)" by (cases "search distance tree cands")
  then have "fold (search_step distance tree cands) [1..<length cands] (length cands, 0) = (j, d)"
    by (simp add: search_def Let_def)
  from search_fold[OF this] assms show ?thesis using jd by auto
qed

lemma tl_nth: "1 \<le> i \<Longrightarrow> i < length xs \<Longrightarrow> xs ! i \<in> set (tl xs)"
  by (cases xs; cases i) auto


lemma select_step_fresh:
  assumes ok: "distance_ok distance"
    and j: "fst (search distance sp cands) \<noteq> length cands"
  shows "cands ! fst (search distance sp cands) \<in> set (tl cands) - set sp"
    and "card (set (tl cands) - set (sp @ [cands ! fst (search distance sp cands)]))
          = card (set (tl cands) - set sp) - 1"
    and "0 < card (set (tl cands) - set sp)"
proof -
  let ?j = "fst (search distance sp cands)"
  from search_some[OF j] have r: "1 \<le> ?j" "?j < length cands"
    "0 < tree_query distance sp (cands ! ?j)" by auto
  from tree_query_member[OF ok, of "cands ! ?j" sp] r(3) have "cands ! ?j \<notin> set sp" by auto
  with tl_nth[OF r(1,2)] show m: "cands ! ?j \<in> set (tl cands) - set sp" by simp
  have "set (tl cands) - set (sp @ [cands ! ?j]) = (set (tl cands) - set sp) - {cands ! ?j}"
    by auto
  then show "card (set (tl cands) - set (sp @ [cands ! ?j]))
          = card (set (tl cands) - set sp) - 1"
    using m by (simp add: card_Diff_singleton)
  show "0 < card (set (tl cands) - set sp)"
    using m by (metis List.finite_set card_gt_0_iff empty_iff finite_Diff)
qed

lemma select_loop_exhausted:
  "distance_ok distance \<Longrightarrow> sp \<noteq> [] \<Longrightarrow> card (set (tl cands) - set sp) < k \<Longrightarrow>
   select_loop distance cands k (sp, nsp, ids) =
     Inl (Exception ''During 'downselect', failed to find any candidates in the tree.'')"
proof (induction k arbitrary: sp nsp ids)
  case 0
  then show ?case by simp
next
  case (Suc k)
  let ?j = "fst (search distance sp cands)"
  show ?case
  proof (cases "?j = length cands")
    case True
    then show ?thesis using Suc.prems(2) by (simp add: KDTree_def)
  next
    case False
    note f = select_step_fresh[OF Suc.prems(1) False]
    have "card (set (tl cands) - set (sp @ [cands ! ?j])) < k"
      using f(2,3) Suc.prems(3) by linarith
    from Suc.IH[OF Suc.prems(1) _ this, of "nsp @ [cands ! ?j]" "ids @ [?j]"]
    show ?thesis using False Suc.prems(2) by (simp add: KDTree_def Let_def)
  qed
qed



lemma seed_none:
  "cfg_previous_samples d = None \<Longrightarrow>
   seed_points rd d cols (c0 # cs) = Inr (([c0], [c0], [0]), 1)"
  by (simp add: seed_points_def)

lemma downselect_unfold:
  assumes "DataFrame_from_dict (priv_samples s) = Inr df"
    and "df_select df (parameters s) = Inr cands"
    and "seed_points rd (data s) (parameters s) cands = Inr (st, n0)"
  shows "downselect distance True rd s num_points =
     (case select_loop distance cands (nat (num_points - int n0)) st of
        Inl e \<Rightarrow> Inl e
      | Inr (sample_points, new_sample_points, new_sample_ids) \<Rightarrow>
          Inr (s\<lparr>priv_samples := Some (map (df_row df) new_sample_ids)\<rparr>))"
  using assms by (simp add: downselect_def)

lemma card_tl_minus_hd: "card (set cs - {c0}) = card (set (c0 # cs)) - 1"
  by (simp add: card_insert_if card_Diff_singleton_if)

text \<open>
  C6, as amended. The distance is never negative and is zero from a point to itself.
  When an iteration of the selection finds no candidate, among the indices from 1 on,
  whose distance to the nearest selected point exceeds zero, the loop raises the
  search-exhaustion error "During 'downselect', failed to find any candidates in the
  tree.". So \<^verbatim>\<open>downselect\<close> raises it: without \<^verbatim>\<open>previous_samples\<close>, on a pool
  that is not empty, when \<open>num_points\<close> is larger than the number of distinct
  candidate points; and in general, from any seed that is not empty, when the number of
  points still to select is larger than the number of distinct candidate points, from
  index 1 on, that are not among the seed points.
\<close>

theorem downselect_exhausted:
  assumes "distance_ok distance"
    and "DataFrame_from_dict (priv_samples s) = Inr df"
    and "df_select df (parameters s) = Inr cands"
  shows "(sp \<noteq> [] \<and>
            (\<forall>i. 1 \<le> i \<and> i < length cands \<longrightarrow> tree_query distance sp (cands ! i) \<le> 0) \<longrightarrow>
            select_loop distance cands (Suc k) (sp, nsp, ids) =
              Inl (Exception ''During 'downselect', failed to find any candidates in the tree.''))
       \<and> (cfg_previous_samples (data s) = None \<and> cands \<noteq> [] \<and>
            int (card (set cands)) < num_points \<longrightarrow>
            downselect distance True pd_read_csv s num_points =
              Inl (Exception ''During 'downselect', failed to find any candidates in the tree.''))
       \<and> (seed_points pd_read_csv (data s) (parameters s) cands = Inr ((sp0, nsp0, ids0), n0) \<and>
            sp0 \<noteq> [] \<and> int (card (set (tl cands) - set sp0)) < num_points - int n0 \<longrightarrow>
            downselect distance True pd_read_csv s num_points =
              Inl (Exception ''During 'downselect', failed to find any candidates in the tree.''))"
proof -
  let ?err = "Inl (Exception ''During 'downselect', failed to find any candidates in the tree.'')
                :: error + sampler"
  have general: "downselect distance True pd_read_csv s num_points = ?err"
    if seed: "seed_points pd_read_csv (data s) (parameters s) cands = Inr ((a, b, c), m)"
      and ne: "a \<noteq> []" and more: "int (card (set (tl cands) - set a)) < num_points - int m"
    for a b c m
  proof -
    from more have "card (set (tl cands) - set a) < nat (num_points - int m)" by linarith
    from select_loop_exhausted[OF assms(1) ne this]
    show ?thesis using downselect_unfold[OF assms(2,3) seed] by simp
  qed
  have 1: "select_loop distance cands (Suc k) (sp, nsp, ids) =
             Inl (Exception ''During 'downselect', failed to find any candidates in the tree.'')"
    if "sp \<noteq> []"
      and "\<forall>i. 1 \<le> i \<and> i < length cands \<longrightarrow> tree_query distance sp (cands ! i) \<le> 0"
    using that search_none[of distance sp cands] by (simp add: KDTree_def)
  have 2: "downselect distance True pd_read_csv s num_points = ?err"
    if np: "cfg_previous_samples (data s) = None" and ne: "cands \<noteq> []"
      and more: "int (card (set cands)) < num_points"
  proof -
    from ne obtain c0 cs where c: "cands = c0 # cs" by (cases cands) auto
    have seed: "seed_points pd_read_csv (data s) (parameters s) cands = Inr (([c0], [c0], [0]), 1)"
      using np c by (simp add: seed_none)
    have "card (set (tl cands) - set [c0]) = card (set cands) - 1"
      using c card_tl_minus_hd[of cs c0] by simp
    moreover have "0 < card (set cands)" using c by (simp add: card_gt_0_iff)
    ultimately have "int (card (set (tl cands) - set [c0])) < num_points - int 1"
      using more by simp
    from general[OF seed _ this] show ?thesis by simp
  qed
  from 1 2 general show ?thesis by blast
qed



lemma pool_parameters: "parameters (pool_sampler vs) = [KStr ''X'']"
  by (simp add: parameters_def pool_sampler_def init_sampler_def pool_config_def keys_def)

lemma pool_no_previous: "cfg_previous_samples (data (pool_sampler vs)) = None"
  by (simp add: pool_sampler_def init_sampler_def pool_config_def)

lemma euclid_ok: "distance_ok euclid"
proof -
  have n: "0 \<le> sum_list (map (\<lambda>(a, b). (a - b)\<^sup>2) zs)" for zs :: "(real \<times> real) list"
    by (induction zs) auto
  have z: "sum_list (map (\<lambda>(a, b). (a - b)\<^sup>2) (zip p p)) = 0" for p :: "real list"
    by (induction p) auto
  show ?thesis by (simp add: distance_ok_def euclid_def n z)
qed


lemma pool_frame_floats2:
  "DataFrame_from_dict (priv_samples (pool_sampler [PFloat 1, PFloat 1]))
     = Inr (pool_df [PFloat 1, PFloat 1])"
  by (simp add: DataFrame_from_dict_def pool_sampler_def first_seen_def keys_def pool_df_def
      Let_def)



lemma pool_candidates:
  "df_select (pool_df vs) (parameters (pool_sampler vs)) = Inr (map (\<lambda>v. [cell_value v]) vs)"
proof -
  have "rows_cells (map (\<lambda>v. [(KStr ''X'', v)]) vs) [KStr ''X'']
          = Inr (map (\<lambda>v. [cell_value v]) vs)"
    by (induction vs) auto
  then show ?thesis by (simp add: df_select_def pool_parameters pool_df_def)
qed

theorem downselect_exhausted_witness:
  "distance_ok euclid
   \<and> DataFrame_from_dict (priv_samples (pool_sampler [PFloat 1, PFloat 1]))
       = Inr (pool_df [PFloat 1, PFloat 1])
   \<and> df_select (pool_df [PFloat 1, PFloat 1]) (parameters (pool_sampler [PFloat 1, PFloat 1]))
       = Inr [[1], [1]]
   \<and> cfg_previous_samples (data (pool_sampler [PFloat 1, PFloat 1])) = None
   \<and> [[1], [1 :: real]] \<noteq> []
   \<and> int (card (set [[1], [1 :: real]])) < 2
   \<and> downselect euclid True no_files (pool_sampler [PFloat 1, PFloat 1]) 2 =
        Inl (Exception ''During 'downselect', failed to find any candidates in the tree.'')"
proof -
  let ?s = "pool_sampler [PFloat 1, PFloat 1]"
  have h1: "DataFrame_from_dict (priv_samples ?s) = Inr (pool_df [PFloat 1, PFloat 1])"
    by (rule pool_frame_floats2)
  have h2: "df_select (pool_df [PFloat 1, PFloat 1]) (parameters ?s) = Inr [[1], [1]]"
    using pool_candidates[of "[PFloat 1, PFloat 1]"] by simp
  have h3: "cfg_previous_samples (data ?s) = None
        \<and> [[1], [1 :: real]] \<noteq> [] \<and> int (card (set [[1], [1 :: real]])) < 2"
    by (simp add: pool_no_previous)
  from downselect_exhausted[OF euclid_ok h1 h2, of _ _ _ _ 2 no_files] h3
  have "downselect euclid True no_files ?s 2 =
        Inl (Exception ''During 'downselect', failed to find any candidates in the tree.'')"
    by blast
  with h1 h2 h3 euclid_ok show ?thesis by simp
qed

text \<open>
  With an empty pool, for which every positive \<open>num_points\<close> is larger than the
  number of candidate points, the selection of the columns raises KeyError.
\<close>

theorem downselect_empty_pool_counterexample:
  "priv_samples (pool_sampler []) = Some []
   \<and> cfg_previous_samples (data (pool_sampler [])) = None
   \<and> int (card (set ([] :: point list))) < 1
   \<and> downselect euclid True no_files (pool_sampler []) 1 = Inl (KeyError (KStr ''X''))"
proof -
  have "DataFrame_from_dict (priv_samples (pool_sampler []))
          = Inr \<lparr>df_columns = [], df_records = []\<rparr>"
    by (simp add: DataFrame_from_dict_def pool_sampler_def first_seen_def)
  then have "downselect euclid True no_files (pool_sampler []) 1 = Inl (KeyError (KStr ''X''))"
    by (simp add: downselect_def pool_parameters df_select_def)
  then show ?thesis by (simp add: pool_no_previous) (simp add: pool_sampler_def)
qed



end
